theory Spec2Isabelle
  imports Complex_Main "HOL-Library.Word"
begin

section \<open>Data model\<close>

text \<open>
  The metrics of \<^verbatim>\<open>utils/eval_utils.py\<close> work on numpy arrays. An array is its shape
  and its elements in row-major (C) order; numpy keeps the number of elements equal to
  the product of the shape (\<open>well_formed\<close>). Every function first converts its inputs
  with \<^verbatim>\<open>np.asarray(x).astype(np.bool)\<close>; the model starts from the boolean arrays
  that result. Counts are Python or 64-bit numpy integers and are modelled as \<open>int\<close>;
  the floating-point results and \<open>empty_value\<close> are modelled as \<open>real\<close>. The numpy is
  one in which \<^verbatim>\<open>np.bool\<close> and \<^verbatim>\<open>np.float\<close> exist, as the source takes for granted.
\<close>

record 'a ndarray =
  shape :: "nat list"
  flat :: "'a list"

definition well_formed :: "'a ndarray \<Rightarrow> bool" where
  "well_formed a \<longleftrightarrow> length (flat a) = prod_list (shape a)"

text \<open>Every exception the modelled functions can end in.\<close>

datatype error =
    ShapeMismatch
  | BroadcastError
  | EmptyReduction
  | UnboundLocalError
  | ZeroDivisionError
  | AttributeError
  | LabelerError

text \<open>
  \<open>ShapeMismatch\<close> is the \<^verbatim>\<open>ValueError("Shape mismatch: ...")\<close> of \<^verbatim>\<open>compute_dice\<close>;
  \<open>BroadcastError\<close> the \<^verbatim>\<open>ValueError\<close> of an elementwise numpy operation on shapes that
  do not broadcast; \<open>EmptyReduction\<close> the \<^verbatim>\<open>ValueError\<close> of \<^verbatim>\<open>max()\<close> on an array
  without elements; \<open>UnboundLocalError\<close> the return of a local variable that was never
  assigned; \<open>AttributeError\<close> the call of \<^verbatim>\<open>.astype\<close> on a value that has no such
  method; \<open>LabelerError\<close> any exception of the labelling library.
\<close>

section \<open>The numpy operations used\<close>

subsection \<open>Broadcasting\<close>

fun broadcast_rev :: "nat list \<Rightarrow> nat list \<Rightarrow> nat list option" where
  "broadcast_rev [] ys = Some ys"
| "broadcast_rev (x # xs) [] = Some (x # xs)"
| "broadcast_rev (x # xs) (y # ys) =
     (if x = y \<or> y = 1 then map_option ((#) x) (broadcast_rev xs ys)
      else if x = 1 then map_option ((#) y) (broadcast_rev xs ys)
      else None)"

definition broadcast_shapes :: "nat list \<Rightarrow> nat list \<Rightarrow> nat list option" where
  "broadcast_shapes s t = map_option rev (broadcast_rev (rev s) (rev t))"

fun unravel :: "nat list \<Rightarrow> nat \<Rightarrow> nat list" where
  "unravel [] i = []"
| "unravel (d # ds) i = (i div prod_list ds) # unravel ds (i mod prod_list ds)"

fun ravel :: "nat list \<Rightarrow> nat list \<Rightarrow> nat" where
  "ravel (d # ds) (k # ks) = k * prod_list ds + ravel ds ks"
| "ravel _ _ = 0"

definition broadcast_to :: "nat list \<Rightarrow> 'a ndarray \<Rightarrow> 'a ndarray" where
  "broadcast_to t a =
     \<lparr>shape = t,
      flat = map (\<lambda>i. flat a !
                   ravel (shape a)
                     (map2 (\<lambda>d k. if d = 1 then 0 else k) (shape a)
                        (drop (length t - length (shape a)) (unravel t i))))
                 [0..<prod_list t]\<rparr>"

subsection \<open>Elementwise operations and reductions\<close>

text \<open>
  \<^verbatim>\<open>np.logical_and\<close>: elementwise on equal shapes (where broadcasting changes nothing),
  on the common broadcast shape otherwise, and a \<^verbatim>\<open>ValueError\<close> when there is none.
\<close>

definition np_logical_and :: "bool ndarray \<Rightarrow> bool ndarray \<Rightarrow> error + bool ndarray" where
  "np_logical_and a b =
     (if shape a = shape b
      then Inr \<lparr>shape = shape a, flat = map2 (\<and>) (flat a) (flat b)\<rparr>
      else case broadcast_shapes (shape a) (shape b) of
             None \<Rightarrow> Inl BroadcastError
           | Some t \<Rightarrow>
               Inr \<lparr>shape = t,
                    flat = map2 (\<and>) (flat (broadcast_to t a)) (flat (broadcast_to t b))\<rparr>)"

text \<open>\<^verbatim>\<open>labeled == cluster_label\<close>: the mask of one label.\<close>

definition np_equal :: "int ndarray \<Rightarrow> int \<Rightarrow> bool ndarray" where
  "np_equal a c = \<lparr>shape = shape a, flat = map (\<lambda>x. x = c) (flat a)\<rparr>"

text \<open>\<^verbatim>\<open>a.sum()\<close> of a boolean array: the number of true elements.\<close>

definition np_sum :: "bool ndarray \<Rightarrow> int" where
  "np_sum a = int (length (filter (\<lambda>b. b) (flat a)))"

definition np_any :: "bool ndarray \<Rightarrow> bool" where
  "np_any a = list_ex (\<lambda>b. b) (flat a)"

text \<open>\<^verbatim>\<open>a.max()\<close>: numpy raises on an array without elements.\<close>

definition np_max :: "int ndarray \<Rightarrow> error + int" where
  "np_max a = (case flat a of [] \<Rightarrow> Inl EmptyReduction | x # xs \<Rightarrow> Inr (fold max xs x))"

text \<open>\<^verbatim>\<open>.astype('int16')\<close>: the low 16 bits, read as two's complement.\<close>

definition astype_int16 :: "int \<Rightarrow> int" where
  "astype_int16 m = sint (word_of_int m :: 16 word)"

section \<open>The labelling library\<close>

text \<open>
  \<^verbatim>\<open>cc3d.connected_components(im, connectivity=c)\<close> belongs to a library outside the
  repository. The functions that call it take it as the parameter \<open>cc\<close>: given the
  connectivity and a boolean array it returns a label array, or \<open>None\<close> when the
  library raises (the callers then end in \<open>LabelerError\<close>).
\<close>

type_synonym labeler = "int \<Rightarrow> bool ndarray \<Rightarrow> int ndarray option"

section \<open>The metrics\<close>

subsection \<open>compute_dice\<close>

definition compute_dice :: "bool ndarray \<Rightarrow> bool ndarray \<Rightarrow> real \<Rightarrow> error + real" where
  "compute_dice im1 im2 empty_value =
     (if shape im1 \<noteq> shape im2 then Inl ShapeMismatch
      else
        let im_sum = np_sum im1 + np_sum im2 in
        if im_sum = 0 then Inr empty_value
        else case np_logical_and im1 im2 of
               Inl e \<Rightarrow> Inl e
             | Inr intersection \<Rightarrow> Inr (2 * real_of_int (np_sum intersection) / real_of_int im_sum))"

subsection \<open>compute_absolute_volume_difference\<close>

text \<open>
  The voxel size is a scalar. Line 80 calls \<^verbatim>\<open>voxel_size.astype(np.float)\<close> on it: a
  numpy scalar has that method and is converted, a plain Python number has not, and
  the call raises \<^verbatim>\<open>AttributeError\<close>.
\<close>

datatype scalar = PyNumber real | NpScalar real

text \<open>
  After that the function warns on a shape mismatch and goes on. The model returns the
  warnings issued together with the value.
\<close>

datatype warning = ShapeMismatchWarning

definition compute_absolute_volume_difference ::
  "bool ndarray \<Rightarrow> bool ndarray \<Rightarrow> scalar \<Rightarrow> error + (warning list \<times> real)" where
  "compute_absolute_volume_difference im1 im2 voxel_size =
     (case voxel_size of
        PyNumber x \<Rightarrow> Inl AttributeError
      | NpScalar voxel_size \<Rightarrow>
          (let warnings = (if shape im1 \<noteq> shape im2 then [ShapeMismatchWarning] else []);
               ground_truth_volume = real_of_int (np_sum im1) * voxel_size;
               prediction_volume = real_of_int (np_sum im2) * voxel_size;
               abs_vol_diff = \<bar>ground_truth_volume - prediction_volume\<bar>
           in Inr (warnings, abs_vol_diff)))"

subsection \<open>compute_number_of_clusters\<close>

definition compute_number_of_clusters :: "labeler \<Rightarrow> bool ndarray \<Rightarrow> int \<Rightarrow> error + int" where
  "compute_number_of_clusters cc im connectivity =
     (case cc connectivity im of
        None \<Rightarrow> Inl LabelerError
      | Some labeled_im \<Rightarrow>
          (case np_max labeled_im of
             Inl e \<Rightarrow> Inl e
           | Inr m \<Rightarrow> Inr (astype_int16 m)))"

subsection \<open>compute_lesion_f1_score\<close>

text \<open>
  The loop over the ground-truth labels \<^verbatim>\<open>range(1, max+1)\<close>, with the counters
  \<open>(tp, fn)\<close> as its state.
\<close>

fun ground_truth_loop ::
  "int ndarray \<Rightarrow> bool ndarray \<Rightarrow> int list \<Rightarrow> int \<times> int \<Rightarrow> error + int \<times> int" where
  "ground_truth_loop labeled_ground_truth intersection [] (tp, fn) = Inr (tp, fn)"
| "ground_truth_loop labeled_ground_truth intersection (cluster_label # rest) (tp, fn) =
     (let binary_cluster_image = np_equal labeled_ground_truth cluster_label in
      case np_logical_and binary_cluster_image intersection of
        Inl e \<Rightarrow> Inl e
      | Inr overlap \<Rightarrow>
          if np_any overlap
          then ground_truth_loop labeled_ground_truth intersection rest (tp + 1, fn)
          else ground_truth_loop labeled_ground_truth intersection rest (tp, fn + 1))"

text \<open>The loop over the prediction labels, with the counter \<open>fp\<close> as its state.\<close>

fun prediction_loop ::
  "int ndarray \<Rightarrow> bool ndarray \<Rightarrow> int list \<Rightarrow> int \<Rightarrow> error + int" where
  "prediction_loop labeled_prediction ground_truth [] fp = Inr fp"
| "prediction_loop labeled_prediction ground_truth (cluster_label # rest) fp =
     (let binary_cluster_image = np_equal labeled_prediction cluster_label in
      case np_logical_and binary_cluster_image ground_truth of
        Inl e \<Rightarrow> Inl e
      | Inr overlap \<Rightarrow>
          if \<not> np_any overlap
          then prediction_loop labeled_prediction ground_truth rest (fp + 1)
          else prediction_loop labeled_prediction ground_truth rest fp)"

text \<open>
  Lines 177 to 204 of the function: the counts \<open>(tp, fp, fn)\<close> with which the score is
  computed.
\<close>

definition lesion_wise_counts ::
  "labeler \<Rightarrow> bool ndarray \<Rightarrow> bool ndarray \<Rightarrow> int \<Rightarrow> error + (int \<times> int \<times> int)" where
  "lesion_wise_counts cc ground_truth prediction connectivity =
     (case np_logical_and ground_truth prediction of
        Inl e \<Rightarrow> Inl e
      | Inr intersection \<Rightarrow>
     (case cc connectivity ground_truth of
        None \<Rightarrow> Inl LabelerError
      | Some labeled_ground_truth \<Rightarrow>
     (case np_max labeled_ground_truth of
        Inl e \<Rightarrow> Inl e
      | Inr max_gt \<Rightarrow>
     (case (if max_gt > 0
            then ground_truth_loop labeled_ground_truth intersection [1..max_gt] (0, 0)
            else Inr (0, 0)) of
        Inl e \<Rightarrow> Inl e
      | Inr (tp, fn) \<Rightarrow>
     (case cc connectivity prediction of
        None \<Rightarrow> Inl LabelerError
      | Some labeled_prediction \<Rightarrow>
     (case np_max labeled_prediction of
        Inl e \<Rightarrow> Inl e
      | Inr max_pred \<Rightarrow>
     (case (if max_pred > 0
            then prediction_loop labeled_prediction ground_truth [1..max_pred] 0
            else Inr 0) of
        Inl e \<Rightarrow> Inl e
      | Inr fp \<Rightarrow> Inr (tp, fp, fn))))))))"

text \<open>
  Lines 206 to 213: the score from the counts. \<open>f1_score\<close> is assigned in two of the
  three branches; returning it from the third raises.
\<close>

definition f1_from_counts ::
  "labeler \<Rightarrow> bool ndarray \<Rightarrow> real \<Rightarrow> int \<times> int \<times> int \<Rightarrow> error + real" where
  "f1_from_counts cc ground_truth empty_value counts =
     (case counts of (tp, fp, fn) \<Rightarrow>
        if tp + fp + fn = 0
        then (case compute_number_of_clusters cc ground_truth 26 of
                Inl e \<Rightarrow> Inl e
              | Inr n \<Rightarrow> if n = 0 then Inr empty_value else Inl UnboundLocalError)
        else if real_of_int tp + real_of_int (fp + fn) / 2 = 0 then Inl ZeroDivisionError
        else Inr (real_of_int tp / (real_of_int tp + real_of_int (fp + fn) / 2)))"

definition compute_lesion_f1_score ::
  "labeler \<Rightarrow> bool ndarray \<Rightarrow> bool ndarray \<Rightarrow> real \<Rightarrow> int \<Rightarrow> error + real" where
  "compute_lesion_f1_score cc ground_truth prediction empty_value connectivity =
     (case lesion_wise_counts cc ground_truth prediction connectivity of
        Inl e \<Rightarrow> Inl e
      | Inr counts \<Rightarrow> f1_from_counts cc ground_truth empty_value counts)"

section \<open>Notions of the specification\<close>

text \<open>The voxels (positions in row-major order) at which a mask is true.\<close>

definition true_voxels :: "bool ndarray \<Rightarrow> nat set" where
  "true_voxels a = {i. i < length (flat a) \<and> flat a ! i}"

text \<open>The voxels that carry the label \<open>c\<close>: the cluster \<open>c\<close> of a label array.\<close>

definition cluster :: "int ndarray \<Rightarrow> int \<Rightarrow> nat set" where
  "cluster L c = {i. i < length (flat L) \<and> flat L ! i = c}"

definition max_label :: "int ndarray \<Rightarrow> int" where
  "max_label L = Max (set (flat L))"

text \<open>
  What the specification promises of a label array \<open>L\<close> of the mask \<open>v\<close>: the same
  shape, a label that is nonzero exactly on the true voxels, never negative, and every
  label from 1 to the largest one in use.
\<close>

definition label_volume_ok :: "bool ndarray \<Rightarrow> int ndarray \<Rightarrow> bool" where
  "label_volume_ok v L \<longleftrightarrow>
     shape L = shape v \<and>
     list_all2 (\<lambda>l b. 0 \<le> l \<and> (l \<noteq> 0) = b) (flat L) (flat v) \<and>
     (\<forall>m \<in> set (flat L). \<forall>c \<in> set [1..m]. c \<in> set (flat L))"

text \<open>The labeller keeps that promise at one call (or raises).\<close>

definition labeler_ok :: "labeler \<Rightarrow> int \<Rightarrow> bool ndarray \<Rightarrow> bool" where
  "labeler_ok cc connectivity v \<longleftrightarrow>
     (case cc connectivity v of None \<Rightarrow> True | Some L \<Rightarrow> label_volume_ok v L)"

text \<open>
  Adjacency of two voxels of a 3D grid under 6-, 18- or 26-connectivity: the
  coordinates differ by at most one on every axis, and on at most one, two or three
  axes.
\<close>

definition adjacent :: "int \<Rightarrow> nat list \<Rightarrow> nat \<Rightarrow> nat \<Rightarrow> bool" where
  "adjacent connectivity s i j \<longleftrightarrow>
     (let d = map2 (\<lambda>a b. \<bar>int a - int b\<bar>) (unravel s i) (unravel s j)
      in list_all (\<lambda>x. x \<le> 1) d \<and> 1 \<le> sum_list d \<and>
         sum_list d \<le> (if connectivity = 6 then 1 else if connectivity = 18 then 2 else 3))"

definition neighbours :: "int \<Rightarrow> bool ndarray \<Rightarrow> (nat \<times> nat) set" where
  "neighbours connectivity v =
     {(i, j). i \<in> true_voxels v \<and> j \<in> true_voxels v \<and> adjacent connectivity (shape v) i j}"

text \<open>The connected components of a mask: the sets of true voxels that reach each other.\<close>

definition components :: "int \<Rightarrow> bool ndarray \<Rightarrow> nat set set" where
  "components connectivity v =
     (\<lambda>i. {j. (i, j) \<in> (neighbours connectivity v)\<^sup>*}) ` true_voxels v"

definition num_components :: "int \<Rightarrow> bool ndarray \<Rightarrow> nat" where
  "num_components connectivity v = card (components connectivity v)"

text \<open>
  A correct labelling of a 3D mask: besides the above, two true voxels carry the same
  label exactly when they are connected.
\<close>

definition is_labeling :: "int \<Rightarrow> bool ndarray \<Rightarrow> int ndarray \<Rightarrow> bool" where
  "is_labeling connectivity v L \<longleftrightarrow>
     connectivity \<in> {6, 18, 26} \<and> length (shape v) = 3 \<and> well_formed v \<and>
     label_volume_ok v L \<and>
     (\<forall>i \<in> true_voxels v. \<forall>j \<in> true_voxels v.
        (flat L ! i = flat L ! j) = ((i, j) \<in> (neighbours connectivity v)\<^sup>*))"

subsection \<open>A small example\<close>

text \<open>
  A ground truth with two lesions and a prediction with two: one on the first lesion,
  one elsewhere.
\<close>

definition ex_gt :: "bool ndarray" where
  "ex_gt = \<lparr>shape = [7, 1, 1], flat = [True, True, False, True, False, False, False]\<rparr>"

definition ex_pred :: "bool ndarray" where
  "ex_pred = \<lparr>shape = [7, 1, 1], flat = [True, False, False, False, False, True, False]\<rparr>"

definition ex_gt_labels :: "int ndarray" where
  "ex_gt_labels = \<lparr>shape = [7, 1, 1], flat = [1, 1, 0, 2, 0, 0, 0]\<rparr>"

definition ex_pred_labels :: "int ndarray" where
  "ex_pred_labels = \<lparr>shape = [7, 1, 1], flat = [1, 0, 0, 0, 0, 2, 0]\<rparr>"

text \<open>A mask without true voxels.\<close>

definition ex_empty :: "bool ndarray" where
  "ex_empty = \<lparr>shape = [2, 1, 1], flat = [False, False]\<rparr>"

definition ex_empty_labels :: "int ndarray" where
  "ex_empty_labels = \<lparr>shape = [2, 1, 1], flat = [0, 0]\<rparr>"

text \<open>A labeller that knows the three masks.\<close>

definition ex_cc :: labeler where
  "ex_cc connectivity v =
     (if v = ex_gt then Some ex_gt_labels
      else if v = ex_pred then Some ex_pred_labels
      else if v = ex_empty then Some ex_empty_labels
      else None)"

subsection \<open>Many lesions\<close>

text \<open>
  A row of \<open>n\<close> voxels of which every other one is true, with its labelling: the true
  voxels touch no other true voxel, so each is a lesion of its own.
\<close>

definition alternating :: "nat \<Rightarrow> bool ndarray" where
  "alternating n = \<lparr>shape = [n, 1, 1], flat = map even [0..<n]\<rparr>"

definition alternating_labels :: "nat \<Rightarrow> int ndarray" where
  "alternating_labels n =
     \<lparr>shape = [n, 1, 1], flat = map (\<lambda>i. if even i then int (i div 2) + 1 else 0) [0..<n]\<rparr>"

definition alternating_cc :: "nat \<Rightarrow> labeler" where
  "alternating_cc n connectivity v = (if v = alternating n then Some (alternating_labels n) else None)"

section \<open>Voxel counts\<close>

lemma np_sum_card: "np_sum a = int (card (true_voxels a))"
  by (simp add: np_sum_def true_voxels_def length_filter_conv_card)

lemma card_true_voxels: "card (true_voxels a) = length (filter (\<lambda>b. b) (flat a))"
  by (simp add: true_voxels_def length_filter_conv_card)

lemma true_voxels_and:
  "true_voxels \<lparr>shape = s, flat = map2 (\<and>) (flat a) (flat b)\<rparr> = true_voxels a \<inter> true_voxels b"
  by (auto simp: true_voxels_def)

lemma card_true_voxels_Int:
  "card (true_voxels a \<inter> true_voxels b) = length (filter (\<lambda>b. b) (map2 (\<and>) (flat a) (flat b)))"
  using card_true_voxels [of "\<lparr>shape = [], flat = map2 (\<and>) (flat a) (flat b)\<rparr>"]
  by (simp add: true_voxels_and)

section \<open>Voxel Dice\<close>

lemma compute_dice_eq:
  "compute_dice im1 im2 e =
     (if shape im1 \<noteq> shape im2 then Inl ShapeMismatch
      else if card (true_voxels im1) + card (true_voxels im2) = 0 then Inr e
      else Inr (2 * real (card (true_voxels im1 \<inter> true_voxels im2))
                / (real (card (true_voxels im1)) + real (card (true_voxels im2)))))"
  by (simp add: compute_dice_def Let_def np_logical_and_def np_sum_card true_voxels_and
           del: of_nat_add)

text \<open>
  Claim C7. Voxel Dice is symmetric: \<open>compute_dice A B emptyValue\<close> and
  \<open>compute_dice B A emptyValue\<close> are the same result, also when both masks are empty
  (and also when the shapes differ, where both calls raise).
\<close>

theorem compute_dice_symmetric: "compute_dice A B e = compute_dice B A e"
  by (simp add: compute_dice_eq Int_commute add.commute)

text \<open>
  Claim C8. \<open>compute_dice\<close> raises the shape error exactly when the shapes differ. On
  equal shapes it does not fail: it returns \<open>emptyValue\<close> when both masks have no true
  voxel and \<open>2 |A \<inter> B| / (|A| + |B|)\<close> otherwise.
\<close>

theorem compute_dice_shape_error_or_value:
  "(compute_dice A B e = Inl ShapeMismatch \<longleftrightarrow> shape A \<noteq> shape B) \<and>
   (shape A = shape B \<longrightarrow>
      compute_dice A B e =
        Inr (if card (true_voxels A) = 0 \<and> card (true_voxels B) = 0 then e
             else 2 * real (card (true_voxels A \<inter> true_voxels B))
                  / (real (card (true_voxels A)) + real (card (true_voxels B)))))"
  by (simp add: compute_dice_eq)

theorem compute_dice_shape_error_or_value_witness:
  "shape \<lparr>shape = [3, 1, 1], flat = [True, True, False]\<rparr>
     = shape \<lparr>shape = [3, 1, 1], flat = [True, False, False]\<rparr> \<and>
   compute_dice \<lparr>shape = [3, 1, 1], flat = [True, True, False]\<rparr>
     \<lparr>shape = [3, 1, 1], flat = [True, False, False]\<rparr> 1 = Inr (2 / 3)"
  using compute_dice_shape_error_or_value
    [of "\<lparr>shape = [3, 1, 1], flat = [True, True, False]\<rparr>"
        "\<lparr>shape = [3, 1, 1], flat = [True, False, False]\<rparr>" 1]
  by (simp add: card_true_voxels card_true_voxels_Int)

section \<open>Absolute volume difference\<close>

lemma compute_absolute_volume_difference_np:
  "compute_absolute_volume_difference im1 im2 (NpScalar v) =
     Inr (if shape im1 \<noteq> shape im2 then [ShapeMismatchWarning] else [],
          \<bar>real (card (true_voxels im1)) * v - real (card (true_voxels im2)) * v\<bar>)"
  by (simp add: compute_absolute_volume_difference_def Let_def np_sum_card)

lemma compute_absolute_volume_difference_py:
  "compute_absolute_volume_difference im1 im2 (PyNumber x) = Inl AttributeError"
  by (simp add: compute_absolute_volume_difference_def)

text \<open>
  Claim C5, as stated, fails: on masks of different shapes the function does not fail
  with a shape error. With a mask of two true voxels of shape (2,1,1), one of a single
  true voxel of shape (1,1,1) and the numpy scalar 1 as voxel size it issues the warning
  and returns 1.
\<close>

theorem volume_difference_shape_mismatch_counterexample:
  "shape \<lparr>shape = [2, 1, 1], flat = [True, True]\<rparr> \<noteq> shape \<lparr>shape = [1, 1, 1], flat = [True]\<rparr> \<and>
   compute_absolute_volume_difference \<lparr>shape = [2, 1, 1], flat = [True, True]\<rparr>
      \<lparr>shape = [1, 1, 1], flat = [True]\<rparr> (NpScalar 1) = Inr ([ShapeMismatchWarning], 1)"
  by (simp add: compute_absolute_volume_difference_def Let_def np_sum_def)

text \<open>
  Claim C5, amended. For boolean volumes \<open>A\<close> and \<open>B\<close> whose shapes differ and a
  voxel size that is a numpy scalar, \<open>compute_absolute_volume_difference\<close> issues the
  shape-mismatch warning and goes on to return \<open>|sum(A) voxelSize - sum(B) voxelSize|\<close>,
  computed with the mismatching masks.
\<close>

theorem volume_difference_warns_and_continues:
  "shape A \<noteq> shape B \<Longrightarrow>
   compute_absolute_volume_difference A B (NpScalar voxel_size) =
     Inr ([ShapeMismatchWarning],
          \<bar>real (card (true_voxels A)) * voxel_size - real (card (true_voxels B)) * voxel_size\<bar>)"
  by (simp add: compute_absolute_volume_difference_np)

theorem volume_difference_warns_and_continues_witness:
  "shape \<lparr>shape = [3, 1, 1], flat = [True, True, False]\<rparr>
     \<noteq> shape \<lparr>shape = [1, 1, 1], flat = [True]\<rparr> \<and>
   compute_absolute_volume_difference \<lparr>shape = [3, 1, 1], flat = [True, True, False]\<rparr>
     \<lparr>shape = [1, 1, 1], flat = [True]\<rparr> (NpScalar 2) = Inr ([ShapeMismatchWarning], 2)"
proof -
  have d: "shape \<lparr>shape = [3, 1, 1], flat = [True, True, False]\<rparr>
            \<noteq> shape \<lparr>shape = [1, 1, 1], flat = [True]\<rparr>"
    by simp
  from volume_difference_warns_and_continues [OF d, of 2] d show ?thesis
    by (simp add: card_true_voxels)
qed

section \<open>The loops of the lesion-wise matching\<close>

lemma np_max_eq:
  assumes "flat L \<noteq> []"
  shows "np_max L = Inr (max_label L)"
proof (cases "flat L")
  case Nil
  with assms show ?thesis by simp
next
  case (Cons x xs)
  then show ?thesis
    using Max.set_eq_fold [of x xs] by (simp add: np_max_def max_label_def)
qed

lemma np_max_empty: "flat L = [] \<Longrightarrow> np_max L = Inl EmptyReduction"
  by (simp add: np_max_def)

lemma list_ex_nth: "list_ex (\<lambda>b. b) xs \<longleftrightarrow> (\<exists>i < length xs. xs ! i)"
  unfolding list_ex_iff by (metis in_set_conv_nth)

lemma overlap_nth:
  "i < length xs \<Longrightarrow> i < length ys \<Longrightarrow>
     map2 (\<and>) (map (\<lambda>x. x = c) xs) ys ! i \<longleftrightarrow> xs ! i = c \<and> ys ! i"
  by simp

lemma overlap_length:
  "length (map2 (\<and>) (map (\<lambda>x. x = c) xs) ys) = min (length xs) (length ys)"
  by simp

lemma np_any_overlap:
  "np_any \<lparr>shape = s, flat = map2 (\<and>) (map (\<lambda>x. x = c) (flat L)) (flat m)\<rparr>
     \<longleftrightarrow> cluster L c \<inter> true_voxels m \<noteq> {}"
    (is "np_any ?ov \<longleftrightarrow> _")
proof
  assume "np_any ?ov"
  then obtain i where i: "i < length (flat ?ov)" and t: "flat ?ov ! i"
    unfolding np_any_def list_ex_nth by blast
  from i have l: "i < length (flat L)" "i < length (flat m)"
    by (simp_all only: ndarray.simps overlap_length min_less_iff_conj)
  with t have "flat L ! i = c \<and> flat m ! i"
    by (simp only: ndarray.simps overlap_nth)
  with l have "i \<in> cluster L c \<inter> true_voxels m"
    by (simp add: cluster_def true_voxels_def)
  then show "cluster L c \<inter> true_voxels m \<noteq> {}" by blast
next
  assume "cluster L c \<inter> true_voxels m \<noteq> {}"
  then obtain i where "i \<in> cluster L c" "i \<in> true_voxels m" by blast
  then have l: "i < length (flat L)" "i < length (flat m)" and v: "flat L ! i = c \<and> flat m ! i"
    by (simp_all add: cluster_def true_voxels_def)
  from l have "i < length (flat ?ov)"
    by (simp only: ndarray.simps overlap_length min_less_iff_conj)
  moreover from l v have "flat ?ov ! i"
    by (simp only: ndarray.simps overlap_nth)
  ultimately show "np_any ?ov"
    unfolding np_any_def list_ex_nth by blast
qed

lemma np_logical_and_np_equal:
  "shape L = shape m \<Longrightarrow>
     np_logical_and (np_equal L c) m
       = Inr \<lparr>shape = shape L, flat = map2 (\<and>) (map (\<lambda>x. x = c) (flat L)) (flat m)\<rparr>"
  by (simp add: np_logical_and_def np_equal_def)

lemma ground_truth_loop_eq:
  assumes "shape L = shape m"
  shows "ground_truth_loop L m cs (tp, fn) =
     Inr (tp + int (length (filter (\<lambda>c. cluster L c \<inter> true_voxels m \<noteq> {}) cs)),
          fn + int (length (filter (\<lambda>c. cluster L c \<inter> true_voxels m = {}) cs)))"
proof (induction cs arbitrary: tp fn)
  case Nil
  show ?case by simp
next
  case (Cons c cs)
  show ?case
    by (simp add: np_logical_and_np_equal [OF assms] np_any_overlap Cons.IH)
qed

lemma prediction_loop_eq:
  assumes "shape L = shape g"
  shows "prediction_loop L g cs fp =
     Inr (fp + int (length (filter (\<lambda>c. cluster L c \<inter> true_voxels g = {}) cs)))"
proof (induction cs arbitrary: fp)
  case Nil
  show ?case by simp
next
  case (Cons c cs)
  show ?case
    by (simp add: np_logical_and_np_equal [OF assms] np_any_overlap Cons.IH)
qed

lemma length_filter_upto: "length (filter P [1..k]) = card {c \<in> {1..k}. P c}"
proof -
  have "distinct (filter P [1..k])" by simp
  then have "card (set (filter P [1..k])) = length (filter P [1..k])"
    by (rule distinct_card)
  moreover have "set (filter P [1..k]) = {c \<in> {1..k}. P c}"
    by (simp add: set_eq_iff)
  ultimately show ?thesis by (simp only:)
qed

lemma ground_truth_loop_total:
  "ground_truth_loop L m cs (tp, fn) = Inr (tp', fn') \<Longrightarrow>
     tp \<le> tp' \<and> fn \<le> fn' \<and> tp' + fn' = tp + fn + int (length cs)"
proof (induction cs arbitrary: tp fn)
  case Nil
  then show ?case by simp
next
  case (Cons c cs)
  show ?case
  proof (cases "np_logical_and (np_equal L c) m")
    case (Inl e)
    with Cons.prems show ?thesis by simp
  next
    case (Inr ov)
    show ?thesis
    proof (cases "np_any ov")
      case True
      with Inr Cons.prems have "ground_truth_loop L m cs (tp + 1, fn) = Inr (tp', fn')"
        by simp
      from Cons.IH [OF this] show ?thesis by simp
    next
      case False
      with Inr Cons.prems have "ground_truth_loop L m cs (tp, fn + 1) = Inr (tp', fn')"
        by simp
      from Cons.IH [OF this] show ?thesis by simp
    qed
  qed
qed

lemma prediction_loop_mono:
  "prediction_loop L g cs fp = Inr fp' \<Longrightarrow> fp \<le> fp'"
proof (induction cs arbitrary: fp)
  case Nil
  then show ?case by simp
next
  case (Cons c cs)
  show ?case
  proof (cases "np_logical_and (np_equal L c) g")
    case (Inl e)
    with Cons.prems show ?thesis by simp
  next
    case (Inr ov)
    show ?thesis
    proof (cases "np_any ov")
      case True
      with Inr Cons.prems have "prediction_loop L g cs fp = Inr fp'"
        by simp
      from Cons.IH [OF this] show ?thesis by simp
    next
      case False
      with Inr Cons.prems have "prediction_loop L g cs (fp + 1) = Inr fp'"
        by simp
      from Cons.IH [OF this] show ?thesis by simp
    qed
  qed
qed

section \<open>The counts on masks of equal shape\<close>

lemma counts_gt_branch:
  assumes "shape L = shape m"
  shows "(if 0 < k then ground_truth_loop L m [1..k] (0, 0) else Inr (0, 0)) =
     Inr (int (card {c \<in> {1..k}. cluster L c \<inter> true_voxels m \<noteq> {}}),
          int (card {c \<in> {1..k}. cluster L c \<inter> true_voxels m = {}}))"
proof (cases "0 < k")
  case True
  then show ?thesis
    by (simp add: ground_truth_loop_eq [OF assms] length_filter_upto)
next
  case False
  then have "{1..k} = {}" by simp
  with False show ?thesis by simp
qed

lemma counts_pred_branch:
  assumes "shape L = shape g"
  shows "(if 0 < k then prediction_loop L g [1..k] 0 else Inr 0) =
     Inr (int (card {c \<in> {1..k}. cluster L c \<inter> true_voxels g = {}}))"
proof (cases "0 < k")
  case True
  then show ?thesis
    by (simp add: prediction_loop_eq [OF assms] length_filter_upto)
next
  case False
  then have "{1..k} = {}" by simp
  with False show ?thesis by simp
qed

lemma lesion_wise_counts_eq:
  assumes sh: "shape gt = shape pred"
    and g: "cc conn gt = Some Lg" "shape Lg = shape gt" "flat Lg \<noteq> []"
    and p: "cc conn pred = Some Lp" "shape Lp = shape pred" "flat Lp \<noteq> []"
  shows "lesion_wise_counts cc gt pred conn =
     Inr (int (card {c \<in> {1..max_label Lg}.
                 cluster Lg c \<inter> (true_voxels gt \<inter> true_voxels pred) \<noteq> {}}),
          int (card {c \<in> {1..max_label Lp}. cluster Lp c \<inter> true_voxels gt = {}}),
          int (card {c \<in> {1..max_label Lg}.
                 cluster Lg c \<inter> (true_voxels gt \<inter> true_voxels pred) = {}}))"
proof -
  define I where "I = \<lparr>shape = shape gt, flat = map2 (\<and>) (flat gt) (flat pred)\<rparr>"
  have i: "np_logical_and gt pred = Inr I"
    using sh by (simp add: np_logical_and_def I_def)
  have tv: "true_voxels I = true_voxels gt \<inter> true_voxels pred"
    by (simp add: I_def true_voxels_and)
  have s1: "shape Lg = shape I" using g(2) by (simp add: I_def)
  have s2: "shape Lp = shape gt" using p(2) sh by simp
  show ?thesis
    by (simp only: lesion_wise_counts_def i g(1) p(1) np_max_eq [OF g(3)] np_max_eq [OF p(3)]
      counts_gt_branch [OF s1] counts_pred_branch [OF s2] tv sum.case option.case prod.case)
qed

section \<open>Label arrays\<close>

lemma label_volume_ok_shape: "label_volume_ok v L \<Longrightarrow> shape L = shape v"
  by (simp add: label_volume_ok_def)

lemma label_volume_ok_length: "label_volume_ok v L \<Longrightarrow> length (flat L) = length (flat v)"
  by (auto simp: label_volume_ok_def dest: list_all2_lengthD)

lemma label_volume_ok_nth:
  assumes "label_volume_ok v L" "i < length (flat v)"
  shows "0 \<le> flat L ! i" "(flat L ! i \<noteq> 0) = flat v ! i"
proof -
  from assms(1) have a: "list_all2 (\<lambda>l b. 0 \<le> l \<and> (l \<noteq> 0) = b) (flat L) (flat v)"
    by (simp add: label_volume_ok_def)
  from assms(2) list_all2_lengthD [OF a] have "i < length (flat L)"
    by simp
  from list_all2_nthD [OF a this] show "0 \<le> flat L ! i" "(flat L ! i \<noteq> 0) = flat v ! i"
    by simp_all
qed

lemma label_volume_ok_used:
  assumes "label_volume_ok v L" "m \<in> set (flat L)" "1 \<le> c" "c \<le> m"
  shows "c \<in> set (flat L)"
  using assms by (simp add: label_volume_ok_def)

lemma max_label_in: "flat L \<noteq> [] \<Longrightarrow> max_label L \<in> set (flat L)"
  unfolding max_label_def by (rule Max_in) simp_all

lemma max_label_ge: "x \<in> set (flat L) \<Longrightarrow> x \<le> max_label L"
  unfolding max_label_def by (rule Max_ge) simp_all

lemma cluster_subset_true_voxels:
  assumes "label_volume_ok v L" "c \<noteq> 0"
  shows "cluster L c \<subseteq> true_voxels v"
proof
  fix i assume "i \<in> cluster L c"
  then have i: "i < length (flat L)" and l: "flat L ! i = c"
    by (simp_all add: cluster_def)
  from i assms(1) have i': "i < length (flat v)"
    by (simp add: label_volume_ok_length)
  from label_volume_ok_nth(2) [OF assms(1) i'] l assms(2) have "flat v ! i" by simp
  with i' show "i \<in> true_voxels v" by (simp add: true_voxels_def)
qed

lemma cluster_nonempty:
  assumes "label_volume_ok v L" "flat L \<noteq> []" "1 \<le> c" "c \<le> max_label L"
  shows "cluster L c \<noteq> {}"
proof -
  from label_volume_ok_used [OF assms(1) max_label_in [OF assms(2)] assms(3,4)]
  have "c \<in> set (flat L)" .
  then obtain i where "i < length (flat L)" "flat L ! i = c"
    by (auto simp: in_set_conv_nth)
  then have "i \<in> cluster L c" by (simp add: cluster_def)
  then show ?thesis by blast
qed

lemma max_label_nonneg:
  assumes "label_volume_ok v L" "flat L \<noteq> []"
  shows "0 \<le> max_label L"
proof -
  from max_label_in [OF assms(2)] obtain i where i: "i < length (flat L)" "flat L ! i = max_label L"
    by (auto simp: in_set_conv_nth)
  with assms(1) have "i < length (flat v)" by (simp add: label_volume_ok_length)
  from label_volume_ok_nth(1) [OF assms(1) this] i show ?thesis by simp
qed

lemma true_voxel_label_pos:
  assumes "label_volume_ok v L" "i \<in> true_voxels v"
  shows "1 \<le> flat L ! i" "flat L ! i \<le> max_label L"
proof -
  from assms(2) have i: "i < length (flat v)" and t: "flat v ! i"
    by (simp_all add: true_voxels_def)
  from label_volume_ok_nth [OF assms(1) i] t show "1 \<le> flat L ! i" by simp
  from i assms(1) have "i < length (flat L)" by (simp add: label_volume_ok_length)
  then have "flat L ! i \<in> set (flat L)" by simp
  then show "flat L ! i \<le> max_label L" by (rule max_label_ge)
qed

lemma no_true_voxels_iff:
  assumes "label_volume_ok v L" "flat L \<noteq> []"
  shows "true_voxels v = {} \<longleftrightarrow> max_label L = 0"
proof
  assume e: "true_voxels v = {}"
  from max_label_in [OF assms(2)] obtain i where i: "i < length (flat L)" "flat L ! i = max_label L"
    by (auto simp: in_set_conv_nth)
  with assms(1) have i': "i < length (flat v)" by (simp add: label_volume_ok_length)
  from e i' have "\<not> flat v ! i" by (auto simp: true_voxels_def)
  with label_volume_ok_nth(2) [OF assms(1) i'] i show "max_label L = 0" by simp
next
  assume z: "max_label L = 0"
  show "true_voxels v = {}"
  proof (rule ccontr)
    assume "true_voxels v \<noteq> {}"
    then obtain i where "i \<in> true_voxels v" by blast
    from true_voxel_label_pos [OF assms(1) this] z show False by simp
  qed
qed

lemma card_split_filter:
  assumes "finite A"
  shows "card {c \<in> A. P c} + card {c \<in> A. \<not> P c} = card A"
proof -
  have "{c \<in> A. P c} \<union> {c \<in> A. \<not> P c} = A" "{c \<in> A. P c} \<inter> {c \<in> A. \<not> P c} = {}"
    by blast+
  with card_Un_disjoint [of "{c \<in> A. P c}" "{c \<in> A. \<not> P c}"] assms show ?thesis
    by simp
qed

section \<open>The counts under a well-formed labelling\<close>

lemma card_labels: "0 \<le> k \<Longrightarrow> int (card {1..k::int}) = k"
  by simp

lemma counts_self:
  assumes cc: "cc conn A = Some L" and ok: "label_volume_ok A L" and ne: "true_voxels A \<noteq> {}"
  shows "lesion_wise_counts cc A A conn = Inr (max_label L, 0, 0)"
proof -
  from ne have "flat A \<noteq> []" by (auto simp: true_voxels_def)
  with ok have l: "flat L \<noteq> []" using label_volume_ok_length [OF ok] by auto
  have sh: "shape L = shape A" by (rule label_volume_ok_shape [OF ok])
  have hit: "cluster L c \<inter> true_voxels A \<noteq> {}" if "c \<in> {1..max_label L}" for c
  proof -
    from that have c: "1 \<le> c" "c \<le> max_label L" by simp_all
    from cluster_nonempty [OF ok l c] cluster_subset_true_voxels [OF ok, of c] c(1)
    show ?thesis by auto
  qed
  have a: "{c \<in> {1..max_label L}. cluster L c \<inter> (true_voxels A \<inter> true_voxels A) \<noteq> {}}
           = {1..max_label L}"
    using hit by auto
  have b: "{c \<in> {1..max_label L}. cluster L c \<inter> (true_voxels A \<inter> true_voxels A) = {}} = {}"
    using hit by auto
  have c: "{c \<in> {1..max_label L}. cluster L c \<inter> true_voxels A = {}} = {}"
    using hit by auto
  have k: "int (card {1..max_label L}) = max_label L"
    by (rule card_labels) (rule max_label_nonneg [OF ok l])
  show ?thesis
    unfolding lesion_wise_counts_eq [of A A cc conn L L, OF refl cc sh l cc sh l] a b c k
    by simp
qed

lemma counts_exhaustive:
  "int (card {c \<in> {1..k::int}. P c}) + int (card {c \<in> {1..k}. \<not> P c}) = max 0 k"
proof -
  have "card {c \<in> {1..k}. P c} + card {c \<in> {1..k}. \<not> P c} = card {1..k}"
    by (rule card_split_filter) simp
  then have "int (card {c \<in> {1..k}. P c}) + int (card {c \<in> {1..k}. \<not> P c}) = int (card {1..k})"
    by (simp only: of_nat_add [symmetric])
  then show ?thesis by simp
qed

lemma same_size:
  assumes "shape gt = shape pred" "well_formed gt" "well_formed pred" "flat gt \<noteq> []"
  shows "flat pred \<noteq> []"
proof -
  from assms have "length (flat pred) = length (flat gt)" by (simp add: well_formed_def)
  with assms(4) show ?thesis by auto
qed


section \<open>The counts on arbitrary arrays\<close>

lemma np_logical_and_error: "np_logical_and a b = Inl e \<Longrightarrow> e = BroadcastError"
  by (auto simp: np_logical_and_def split: if_splits option.splits)

lemma np_max_error: "np_max a = Inl e \<Longrightarrow> e = EmptyReduction"
  by (auto simp: np_max_def split: list.splits)

lemma np_max_Inr: "np_max a = Inr k \<Longrightarrow> flat a \<noteq> [] \<and> k = max_label a"
  using np_max_eq [of a] by (cases "flat a = []") (auto simp: np_max_empty)

lemma ground_truth_loop_error:
  "ground_truth_loop L m cs (tp, fn) = Inl e \<Longrightarrow> e = BroadcastError"
proof (induction cs arbitrary: tp fn)
  case Nil
  then show ?case by simp
next
  case (Cons c cs)
  show ?case
  proof (cases "np_logical_and (np_equal L c) m")
    case (Inl e')
    with Cons.prems have "e = e'" by simp
    with np_logical_and_error [OF Inl] show ?thesis by simp
  next
    case (Inr ov)
    show ?thesis
    proof (cases "np_any ov")
      case True
      with Inr Cons.prems have "ground_truth_loop L m cs (tp + 1, fn) = Inl e" by simp
      then show ?thesis by (rule Cons.IH)
    next
      case False
      with Inr Cons.prems have "ground_truth_loop L m cs (tp, fn + 1) = Inl e" by simp
      then show ?thesis by (rule Cons.IH)
    qed
  qed
qed

lemma prediction_loop_error:
  "prediction_loop L g cs fp = Inl e \<Longrightarrow> e = BroadcastError"
proof (induction cs arbitrary: fp)
  case Nil
  then show ?case by simp
next
  case (Cons c cs)
  show ?case
  proof (cases "np_logical_and (np_equal L c) g")
    case (Inl e')
    with Cons.prems have "e = e'" by simp
    with np_logical_and_error [OF Inl] show ?thesis by simp
  next
    case (Inr ov)
    show ?thesis
    proof (cases "np_any ov")
      case True
      with Inr Cons.prems have "prediction_loop L g cs fp = Inl e" by simp
      then show ?thesis by (rule Cons.IH)
    next
      case False
      with Inr Cons.prems have "prediction_loop L g cs (fp + 1) = Inl e" by simp
      then show ?thesis by (rule Cons.IH)
    qed
  qed
qed

lemma lesion_wise_counts_error:
  assumes "lesion_wise_counts cc gt pred conn = Inl e"
  shows "e \<in> {BroadcastError, LabelerError, EmptyReduction}"
  using assms unfolding lesion_wise_counts_def
  by (auto split: sum.splits option.splits if_splits prod.splits
      dest: np_logical_and_error np_max_error ground_truth_loop_error prediction_loop_error)

lemma lesion_wise_counts_InrD:
  assumes "lesion_wise_counts cc gt pred conn = Inr (tp, fp, fn)"
  shows "\<exists>Lg. cc conn gt = Some Lg \<and> flat Lg \<noteq> [] \<and>
           0 \<le> tp \<and> 0 \<le> fp \<and> 0 \<le> fn \<and> tp + fn = max 0 (max_label Lg)"
  using assms unfolding lesion_wise_counts_def
  by (auto split: sum.splits option.splits if_splits prod.splits
      dest!: np_max_Inr ground_truth_loop_total prediction_loop_mono)

section \<open>The score\<close>

lemma astype_int16_0: "astype_int16 0 = 0"
  by (simp add: astype_int16_def)

lemma clusters_of_empty_mask:
  assumes ok: "labeler_ok cc c v" and e: "true_voxels v = {}" and ne: "flat v \<noteq> []"
  shows "compute_number_of_clusters cc v c = (if cc c v = None then Inl LabelerError else Inr 0)"
proof (cases "cc c v")
  case None
  then show ?thesis by (simp add: compute_number_of_clusters_def)
next
  case (Some L)
  with ok have l: "label_volume_ok v L" by (simp add: labeler_ok_def)
  have n: "flat L \<noteq> []" using label_volume_ok_length [OF l] ne by auto
  from no_true_voxels_iff [OF l n] e have "max_label L = 0" by simp
  with Some show ?thesis
    by (simp add: compute_number_of_clusters_def np_max_eq [OF n] astype_int16_0)
qed

lemma zero_counts_empty_mask:
  assumes r: "lesion_wise_counts cc gt pred conn = Inr (tp, fp, fn)"
    and okc: "labeler_ok cc conn gt" and z: "tp + fp + fn = 0"
  shows "true_voxels gt = {}" "flat gt \<noteq> []"
proof -
  from lesion_wise_counts_InrD [OF r] obtain Lg where
    g: "cc conn gt = Some Lg" "flat Lg \<noteq> []" and nn: "0 \<le> tp" "0 \<le> fp" "0 \<le> fn"
    and s: "tp + fn = max 0 (max_label Lg)"
    by blast
  from okc g(1) have l: "label_volume_ok gt Lg" by (simp add: labeler_ok_def)
  show "flat gt \<noteq> []" using label_volume_ok_length [OF l] g(2) by auto
  from z nn s have "max_label Lg \<le> 0" by simp
  with max_label_nonneg [OF l g(2)] have "max_label Lg = 0" by simp
  with no_true_voxels_iff [OF l g(2)] show "true_voxels gt = {}" by simp
qed

lemma f1_from_counts_eq:
  assumes r: "lesion_wise_counts cc gt pred conn = Inr (tp, fp, fn)"
    and okc: "labeler_ok cc conn gt" and ok26: "labeler_ok cc 26 gt"
  shows "f1_from_counts cc gt e (tp, fp, fn) =
     (if tp + fp + fn = 0
      then (if cc 26 gt = None then Inl LabelerError else Inr e)
      else Inr (real_of_int tp / (real_of_int tp + real_of_int (fp + fn) / 2)))"
proof -
  from lesion_wise_counts_InrD [OF r] have nn: "0 \<le> tp" "0 \<le> fp" "0 \<le> fn"
    by blast+
  show ?thesis
  proof (cases "tp + fp + fn = 0")
    case True
    from clusters_of_empty_mask [OF ok26 zero_counts_empty_mask [OF r okc True]] True
    show ?thesis by (simp add: f1_from_counts_def)
  next
    case False
    with nn have "0 < tp + fp + fn" by simp
    with nn have "0 < 2 * tp + (fp + fn)" by simp
    then have "0 < real_of_int (2 * tp + (fp + fn))" by (simp only: of_int_0_less_iff)
    moreover have "real_of_int tp + real_of_int (fp + fn) / 2 = real_of_int (2 * tp + (fp + fn)) / 2"
      by simp
    ultimately have "0 < real_of_int tp + real_of_int (fp + fn) / 2"
      by (simp only: zero_less_divide_iff) simp
    with False show ?thesis by (simp add: f1_from_counts_def)
  qed
qed

lemma f1_score_assigned:
  assumes okc: "labeler_ok cc conn gt" and ok26: "labeler_ok cc 26 gt"
  shows "compute_lesion_f1_score cc gt pred e conn \<noteq> Inl UnboundLocalError"
proof (cases "lesion_wise_counts cc gt pred conn")
  case (Inl err)
  from lesion_wise_counts_error [OF Inl] Inl show ?thesis
    by (auto simp: compute_lesion_f1_score_def)
next
  case (Inr counts)
  obtain tp fp fn where c: "counts = (tp, fp, fn)" by (cases counts) auto
  from Inr c have "compute_lesion_f1_score cc gt pred e conn = f1_from_counts cc gt e (tp, fp, fn)"
    by (simp add: compute_lesion_f1_score_def)
  with f1_from_counts_eq [OF Inr [unfolded c] okc ok26] show ?thesis by simp
qed

section \<open>The example evaluated\<close>

lemmas ex_defs = ex_gt_def ex_pred_def ex_empty_def ex_gt_labels_def ex_pred_labels_def
  ex_empty_labels_def

lemma ex_cc_simps:
  "ex_cc c ex_gt = Some ex_gt_labels"
  "ex_cc c ex_pred = Some ex_pred_labels"
  "ex_cc c ex_empty = Some ex_empty_labels"
  by (simp_all add: ex_cc_def ex_defs)

lemma ex_well_formed: "well_formed ex_gt" "well_formed ex_pred" "well_formed ex_empty"
  by (simp_all add: well_formed_def ex_defs)

lemma ex_label_volume_ok:
  "label_volume_ok ex_gt ex_gt_labels"
  "label_volume_ok ex_pred ex_pred_labels"
  "label_volume_ok ex_empty ex_empty_labels"
  by (auto simp: label_volume_ok_def ex_defs)

lemma ex_labeler_ok:
  "labeler_ok ex_cc c ex_gt" "labeler_ok ex_cc c ex_pred" "labeler_ok ex_cc c ex_empty"
  by (simp_all add: labeler_ok_def ex_cc_simps ex_label_volume_ok)

lemmas eval_defs = lesion_wise_counts_def np_logical_and_def np_max_def np_equal_def np_any_def
  Let_def upto.simps compute_lesion_f1_score_def f1_from_counts_def compute_number_of_clusters_def
  astype_int16_def

lemma ex_counts: "lesion_wise_counts ex_cc ex_gt ex_pred 26 = Inr (1, 1, 1)"
  by (simp add: eval_defs ex_cc_def ex_defs)

lemma ex_counts_self: "lesion_wise_counts ex_cc ex_gt ex_gt 26 = Inr (2, 0, 0)"
  by (simp add: eval_defs ex_cc_def ex_defs)

lemma ex_counts_empty: "lesion_wise_counts ex_cc ex_empty ex_empty 26 = Inr (0, 0, 0)"
  by (simp add: eval_defs ex_cc_def ex_defs)

lemma ex_f1: "compute_lesion_f1_score ex_cc ex_gt ex_pred 1 26 = Inr (1 / 2)"
  by (simp add: compute_lesion_f1_score_def ex_counts f1_from_counts_def)

lemma ex_clusters_empty: "compute_number_of_clusters ex_cc ex_empty 26 = Inr 0"
  by (simp add: compute_number_of_clusters_def ex_cc_simps)
     (simp add: ex_empty_labels_def np_max_def astype_int16_def)

lemma ex_f1_empty: "compute_lesion_f1_score ex_cc ex_empty ex_empty 1 26 = Inr 1"
  by (simp add: compute_lesion_f1_score_def ex_counts_empty f1_from_counts_def ex_clusters_empty)

lemma ex_max_label: "max_label ex_gt_labels = 2" "max_label ex_pred_labels = 2"
  "max_label ex_empty_labels = 0"
  using np_max_eq [of ex_gt_labels] np_max_eq [of ex_pred_labels] np_max_eq [of ex_empty_labels]
  by (simp_all add: np_max_def ex_defs)

section \<open>Arrays without elements\<close>

lemma counts_zero_size:
  assumes "shape gt = shape pred" and "cc conn gt = Some Lg" and "label_volume_ok gt Lg"
    and "flat gt = []"
  shows "lesion_wise_counts cc gt pred conn = Inl EmptyReduction"
proof -
  have "flat Lg = []" using label_volume_ok_length [OF assms(3)] assms(4) by simp
  then show ?thesis
    by (simp add: lesion_wise_counts_def np_logical_and_def assms(1,2) np_max_empty)
qed


lemma counts_Inr_nonempty:
  assumes "lesion_wise_counts cc gt pred conn = Inr (tp, fp, fn)"
    and "cc conn gt = Some Lg" and "label_volume_ok gt Lg"
  shows "flat gt \<noteq> []"
proof -
  from lesion_wise_counts_InrD [OF assms(1)] assms(2) have "flat Lg \<noteq> []" by auto
  with label_volume_ok_length [OF assms(3)] show ?thesis by auto
qed

section \<open>Lesion-wise matching\<close>

text \<open>
  Claim C1. For masks of equal shape, with the clusters being the labels \<open>1..K\<close> of
  the labelling (none when \<open>K\<close> is 0): \<open>tp\<close> counts the ground-truth clusters with a
  voxel at which both the ground truth and the prediction are true, \<open>fn\<close> counts the
  other ground-truth clusters, and \<open>fp\<close> counts the prediction clusters without a voxel
  at which the ground truth is true. (On arrays without any voxel there is nothing to
  classify: \<open>max()\<close> of the label array raises.)
\<close>

theorem lesion_wise_classification:
  assumes "well_formed gt" and "well_formed pred" and "shape gt = shape pred"
    and "cc connectivity gt = Some Lg" and "label_volume_ok gt Lg"
    and "cc connectivity pred = Some Lp" and "label_volume_ok pred Lp"
  shows "lesion_wise_counts cc gt pred connectivity =
     (if flat gt = [] then Inl EmptyReduction
      else Inr (int (card {c \<in> {1..max_label Lg}.
                       cluster Lg c \<inter> (true_voxels gt \<inter> true_voxels pred) \<noteq> {}}),
                int (card {c \<in> {1..max_label Lp}. cluster Lp c \<inter> true_voxels gt = {}}),
                int (card {c \<in> {1..max_label Lg}.
                       cluster Lg c \<inter> (true_voxels gt \<inter> true_voxels pred) = {}})))"
proof (cases "flat gt = []")
  case True
  with counts_zero_size [of gt pred cc connectivity Lg, OF assms(3,4,5)] show ?thesis by simp
next
  case False
  have lg: "flat Lg \<noteq> []" using label_volume_ok_length [OF assms(5)] False by auto
  have lp: "flat Lp \<noteq> []"
    using label_volume_ok_length [OF assms(7)] same_size [OF assms(3,1,2) False] by auto
  from False show ?thesis
    by (simp only: if_False lesion_wise_counts_eq [of gt pred cc connectivity Lg Lp, OF assms(3,4)
          label_volume_ok_shape [OF assms(5)] lg assms(6) label_volume_ok_shape [OF assms(7)] lp])
qed

theorem lesion_wise_classification_witness:
  "well_formed ex_gt \<and> well_formed ex_pred \<and> shape ex_gt = shape ex_pred \<and> flat ex_gt \<noteq> [] \<and>
   ex_cc 26 ex_gt = Some ex_gt_labels \<and> label_volume_ok ex_gt ex_gt_labels \<and>
   ex_cc 26 ex_pred = Some ex_pred_labels \<and> label_volume_ok ex_pred ex_pred_labels \<and>
   lesion_wise_counts ex_cc ex_gt ex_pred 26 = Inr (1, 1, 1) \<and>
   int (card {c \<in> {1..max_label ex_gt_labels}.
          cluster ex_gt_labels c \<inter> (true_voxels ex_gt \<inter> true_voxels ex_pred) \<noteq> {}}) = 1 \<and>
   int (card {c \<in> {1..max_label ex_pred_labels}.
          cluster ex_pred_labels c \<inter> true_voxels ex_gt = {}}) = 1 \<and>
   int (card {c \<in> {1..max_label ex_gt_labels}.
          cluster ex_gt_labels c \<inter> (true_voxels ex_gt \<inter> true_voxels ex_pred) = {}}) = 1"
proof -
  have s: "shape ex_gt = shape ex_pred" and n: "flat ex_gt \<noteq> []"
    by (simp_all add: ex_defs)
  from lesion_wise_classification [of ex_gt ex_pred ex_cc 26 ex_gt_labels ex_pred_labels,
      OF ex_well_formed(1,2) s ex_cc_simps(1) ex_label_volume_ok(1) ex_cc_simps(2)
         ex_label_volume_ok(2)] n
  have "Inr (1, 1, 1) =
     (Inr (int (card {c \<in> {1..max_label ex_gt_labels}.
                 cluster ex_gt_labels c \<inter> (true_voxels ex_gt \<inter> true_voxels ex_pred) \<noteq> {}}),
          int (card {c \<in> {1..max_label ex_pred_labels}.
                 cluster ex_pred_labels c \<inter> true_voxels ex_gt = {}}),
          int (card {c \<in> {1..max_label ex_gt_labels}.
                 cluster ex_gt_labels c \<inter> (true_voxels ex_gt \<inter> true_voxels ex_pred) = {}}))
       :: error + int \<times> int \<times> int)"
    by (simp only: ex_counts if_False)
  then show ?thesis
    using s n
    by (simp only: ex_counts ex_well_formed ex_cc_simps ex_label_volume_ok sum.inject
        prod.inject simp_thms)
qed

section \<open>Score aggregation\<close>

lemma counts_defined:
  assumes "well_formed gt" and "well_formed pred" and "shape gt = shape pred"
    and "flat gt \<noteq> []"
    and "cc connectivity gt = Some Lg" and "label_volume_ok gt Lg"
    and "cc connectivity pred = Some Lp" and "label_volume_ok pred Lp"
  shows "\<exists>tp fp fn. lesion_wise_counts cc gt pred connectivity = Inr (tp, fp, fn)"
proof -
  have lg: "flat Lg \<noteq> []" using label_volume_ok_length [OF assms(6)] assms(4) by auto
  have lp: "flat Lp \<noteq> []"
    using label_volume_ok_length [OF assms(8)] same_size [OF assms(3,1,2,4)] by auto
  from lesion_wise_counts_eq [of gt pred cc connectivity Lg Lp, OF assms(3,5)
          label_volume_ok_shape [OF assms(6)] lg assms(7) label_volume_ok_shape [OF assms(8)] lp]
  show ?thesis by blast
qed

lemma f1_score_eq:
  assumes r: "lesion_wise_counts cc gt pred conn = Inr (tp, fp, fn)"
    and okc: "labeler_ok cc conn gt" and ok26: "labeler_ok cc 26 gt"
  shows "compute_lesion_f1_score cc gt pred e conn =
     (if tp + fp + fn = 0
      then (if cc 26 gt = None then Inl LabelerError else Inr e)
      else Inr (real_of_int tp / (real_of_int tp + real_of_int (fp + fn) / 2)))"
  using f1_from_counts_eq [of cc gt pred conn tp fp fn e, OF r okc ok26] by (simp add: compute_lesion_f1_score_def r)

text \<open>
  Claim C2. On masks of equal shape, whenever \<open>compute_lesion_f1_score\<close> has derived
  the counts \<open>(tp, fp, fn)\<close>, it returns \<open>emptyValue\<close> if \<open>tp + fp + fn = 0\<close> and
  \<open>tp / (tp + (fp + fn) / 2)\<close> if \<open>tp + fp + fn > 0\<close>; and it does derive counts
  on every array that has a voxel. For the zero case the code asks for the clusters of
  the ground truth under connectivity 26, hence the labelling \<open>L26\<close>.
\<close>

theorem f1_score_of_counts:
  assumes "well_formed gt" and "well_formed pred" and "shape gt = shape pred"
    and "cc connectivity gt = Some Lg" and "label_volume_ok gt Lg"
    and "cc connectivity pred = Some Lp" and "label_volume_ok pred Lp"
    and "cc 26 gt = Some L26" and "label_volume_ok gt L26"
  shows "(\<forall>tp fp fn.
       lesion_wise_counts cc gt pred connectivity = Inr (tp, fp, fn) \<longrightarrow>
         (tp + fp + fn = 0 \<longrightarrow>
            compute_lesion_f1_score cc gt pred empty_value connectivity = Inr empty_value) \<and>
         (0 < tp + fp + fn \<longrightarrow>
            compute_lesion_f1_score cc gt pred empty_value connectivity =
              Inr (real_of_int tp / (real_of_int tp + real_of_int (fp + fn) / 2)))) \<and>
     (flat gt \<noteq> [] \<longrightarrow>
        (\<exists>tp fp fn. lesion_wise_counts cc gt pred connectivity = Inr (tp, fp, fn)))"
proof -
  have okc: "labeler_ok cc connectivity gt" and ok26: "labeler_ok cc 26 gt"
    using assms(4,5,8,9) by (simp_all add: labeler_ok_def)
  have a: "(tp + fp + fn = 0 \<longrightarrow>
            compute_lesion_f1_score cc gt pred empty_value connectivity = Inr empty_value) \<and>
         (0 < tp + fp + fn \<longrightarrow>
            compute_lesion_f1_score cc gt pred empty_value connectivity =
              Inr (real_of_int tp / (real_of_int tp + real_of_int (fp + fn) / 2)))"
    if r: "lesion_wise_counts cc gt pred connectivity = Inr (tp, fp, fn)" for tp fp fn
    using f1_score_eq [of cc gt pred connectivity tp fp fn empty_value, OF r okc ok26] assms(8)
    by auto
  have b: "\<exists>tp fp fn. lesion_wise_counts cc gt pred connectivity = Inr (tp, fp, fn)"
    if "flat gt \<noteq> []"
    by (rule counts_defined [of gt pred cc connectivity Lg Lp, OF assms(1-3) that assms(4-7)])
  from a b show ?thesis by blast
qed

theorem f1_score_of_counts_witness:
  "lesion_wise_counts ex_cc ex_gt ex_pred 26 = Inr (1, 1, 1) \<and>
   compute_lesion_f1_score ex_cc ex_gt ex_pred 1 26 = Inr (1 / 2) \<and>
   lesion_wise_counts ex_cc ex_empty ex_empty 26 = Inr (0, 0, 0) \<and>
   compute_lesion_f1_score ex_cc ex_empty ex_empty 1 26 = Inr 1"
proof -
  have s: "shape ex_gt = shape ex_pred" by (simp add: ex_defs)
  note g = f1_score_of_counts [of ex_gt ex_pred ex_cc 26 ex_gt_labels ex_pred_labels
      ex_gt_labels 1,
      OF ex_well_formed(1,2) s ex_cc_simps(1) ex_label_volume_ok(1) ex_cc_simps(2)
         ex_label_volume_ok(2) ex_cc_simps(1) ex_label_volume_ok(1)]
  from g [THEN conjunct1, rule_format, OF ex_counts]
  have a: "compute_lesion_f1_score ex_cc ex_gt ex_pred 1 26 = Inr (1 / 2)" by simp
  note h = f1_score_of_counts [of ex_empty ex_empty ex_cc 26 ex_empty_labels ex_empty_labels
      ex_empty_labels 1,
      OF ex_well_formed(3,3) refl ex_cc_simps(3) ex_label_volume_ok(3) ex_cc_simps(3)
         ex_label_volume_ok(3) ex_cc_simps(3) ex_label_volume_ok(3)]
  from h [THEN conjunct1, rule_format, OF ex_counts_empty]
  have b: "compute_lesion_f1_score ex_cc ex_empty ex_empty 1 26 = Inr 1" by simp
  from a b show ?thesis by (simp add: ex_counts ex_counts_empty)
qed





text \<open>
  Claim C10. The branch for \<open>tp + fp + fn = 0\<close> assigns \<open>f1_score\<close> only when the
  ground truth has no clusters, and has no \<open>else\<close>. Still, for all boolean inputs the
  call never ends in the return of the unassigned variable: zero counts imply that the
  ground truth has no true voxel, so that its cluster count is 0.
\<close>

theorem f1_score_always_assigned:
  assumes "labeler_ok cc connectivity gt" and "labeler_ok cc 26 gt"
  shows "compute_lesion_f1_score cc gt pred empty_value connectivity \<noteq> Inl UnboundLocalError \<and>
     (\<forall>tp fp fn.
        lesion_wise_counts cc gt pred connectivity = Inr (tp, fp, fn) \<and> tp + fp + fn = 0 \<longrightarrow>
          true_voxels gt = {} \<and>
          (\<forall>n. compute_number_of_clusters cc gt 26 = Inr n \<longrightarrow> n = 0))"
proof -
  have a: "compute_lesion_f1_score cc gt pred empty_value connectivity \<noteq> Inl UnboundLocalError"
    by (rule f1_score_assigned [OF assms])
  have b: "true_voxels gt = {} \<and> (\<forall>n. compute_number_of_clusters cc gt 26 = Inr n \<longrightarrow> n = 0)"
    if r: "lesion_wise_counts cc gt pred connectivity = Inr (tp, fp, fn)" and z: "tp + fp + fn = 0"
    for tp fp fn
  proof -
    note e = zero_counts_empty_mask [OF r assms(1) z]
    from clusters_of_empty_mask [OF assms(2) e] e(1) show ?thesis
      by (simp split: if_splits)
  qed
  from a b show ?thesis by blast
qed

theorem f1_score_always_assigned_witness:
  "labeler_ok ex_cc 26 ex_empty \<and>
   lesion_wise_counts ex_cc ex_empty ex_empty 26 = Inr (0, 0, 0) \<and>
   true_voxels ex_empty = {} \<and>
   compute_number_of_clusters ex_cc ex_empty 26 = Inr 0 \<and>
   compute_lesion_f1_score ex_cc ex_empty ex_empty 1 26 = Inr 1 \<and>
   compute_lesion_f1_score ex_cc ex_empty ex_empty 1 26 \<noteq> Inl UnboundLocalError"
  using f1_score_always_assigned [of ex_cc 26 ex_empty ex_empty 1,
      OF ex_labeler_ok(3) ex_labeler_ok(3)]
  by (simp add: ex_counts_empty ex_labeler_ok ex_clusters_empty ex_f1_empty)

lemma f1_self:
  assumes cc: "cc conn A = Some L" and ok: "label_volume_ok A L" and ne: "true_voxels A \<noteq> {}"
  shows "0 < max_label L" "compute_lesion_f1_score cc A A e conn = Inr 1"
proof -
  from ne obtain i where "i \<in> true_voxels A" by blast
  from true_voxel_label_pos [OF ok this] show k: "0 < max_label L" by simp
  then show "compute_lesion_f1_score cc A A e conn = Inr 1"
    by (simp add: compute_lesion_f1_score_def counts_self [of cc conn A L, OF cc ok ne] f1_from_counts_def)
qed

text \<open>
  Claim C6. For a mask \<open>A\<close> with at least one true voxel, compared with itself:
  \<open>tp\<close> is the number of its clusters, \<open>fp = 0\<close>, \<open>fn = 0\<close>, and the F1 score is 1.
\<close>

theorem f1_score_of_mask_with_itself:
  assumes "cc connectivity A = Some L" and "label_volume_ok A L" and "true_voxels A \<noteq> {}"
  shows "lesion_wise_counts cc A A connectivity = Inr (max_label L, 0, 0) \<and>
         0 < max_label L \<and>
         compute_lesion_f1_score cc A A empty_value connectivity = Inr 1"
  using counts_self [of cc connectivity A L, OF assms]
    f1_self(1) [of cc connectivity A L, OF assms]
    f1_self(2) [of cc connectivity A L empty_value, OF assms]
  by simp

theorem f1_score_of_mask_with_itself_witness:
  "ex_cc 26 ex_gt = Some ex_gt_labels \<and> label_volume_ok ex_gt ex_gt_labels \<and>
   true_voxels ex_gt \<noteq> {} \<and>
   lesion_wise_counts ex_cc ex_gt ex_gt 26 = Inr (2, 0, 0) \<and>
   compute_lesion_f1_score ex_cc ex_gt ex_gt 0 26 = Inr 1"
proof -
  have "0 \<in> true_voxels ex_gt" by (simp add: true_voxels_def ex_defs)
  then have t: "true_voxels ex_gt \<noteq> {}" by blast
  from f1_score_of_mask_with_itself [of ex_cc 26 ex_gt ex_gt_labels 0,
      OF ex_cc_simps(1) ex_label_volume_ok(1) t] t
  show ?thesis by (simp add: ex_cc_simps ex_label_volume_ok ex_max_label)
qed

section \<open>The cast to 16 bits\<close>

lemma astype_int16_eq: "astype_int16 k = (k + 32768) mod 65536 - 32768"
  by (simp add: astype_int16_def sint_sbintrunc' signed_take_bit_eq_take_bit_shift take_bit_eq_mod)

lemma astype_int16_id: "- 32768 \<le> k \<Longrightarrow> k \<le> 32767 \<Longrightarrow> astype_int16 k = k"
  by (simp add: astype_int16_eq)

lemma astype_int16_range: "- 32768 \<le> astype_int16 k" "astype_int16 k \<le> 32767"
  by (simp_all add: astype_int16_eq)

lemma astype_int16_wraps: "32767 < k \<Longrightarrow> astype_int16 k \<noteq> k"
  using astype_int16_range(2) [of k] by simp

lemma astype_int16_negative: "32768 \<le> k \<Longrightarrow> k \<le> 65535 \<Longrightarrow> astype_int16 k = k - 65536"
proof -
  assume k: "32768 \<le> k" "k \<le> 65535"
  have "k + 32768 = k - 32768 + 65536" by simp
  then have "(k + 32768) mod 65536 = (k - 32768 + 65536) mod 65536" by (simp only:)
  also have "\<dots> = (k - 32768) mod 65536" by (rule mod_add_self2)
  also from k have "\<dots> = k - 32768" by (simp add: mod_pos_pos_trivial)
  finally show ?thesis by (simp add: astype_int16_eq)
qed

section \<open>Labels and connected components\<close>

lemma neighbours_true_voxels: "(i, j) \<in> neighbours conn v \<Longrightarrow> i \<in> true_voxels v \<and> j \<in> true_voxels v"
  by (simp add: neighbours_def)

lemma reachable_true_voxel:
  assumes "(i, j) \<in> (neighbours conn v)\<^sup>*" "i \<in> true_voxels v"
  shows "j \<in> true_voxels v"
  using assms by (induction rule: rtrancl_induct) (auto dest: neighbours_true_voxels)

lemma is_labeling_ok: "is_labeling conn v L \<Longrightarrow> label_volume_ok v L"
  by (simp add: is_labeling_def)

lemma is_labeling_connected:
  assumes "is_labeling conn v L" "i \<in> true_voxels v" "j \<in> true_voxels v"
  shows "flat L ! i = flat L ! j \<longleftrightarrow> (i, j) \<in> (neighbours conn v)\<^sup>*"
  using assms by (simp add: is_labeling_def)

lemma component_is_cluster:
  assumes l: "is_labeling conn v L" and i: "i \<in> true_voxels v"
  shows "{j. (i, j) \<in> (neighbours conn v)\<^sup>*} = cluster L (flat L ! i)"
proof -
  note ok = is_labeling_ok [OF l]
  have len: "length (flat L) = length (flat v)" by (rule label_volume_ok_length [OF ok])
  from true_voxel_label_pos(1) [OF ok i] have nz: "flat L ! i \<noteq> 0" by simp
  show ?thesis
  proof (intro set_eqI iffI)
    fix j assume "j \<in> {j. (i, j) \<in> (neighbours conn v)\<^sup>*}"
    then have r: "(i, j) \<in> (neighbours conn v)\<^sup>*" by simp
    from reachable_true_voxel [OF r i] have j: "j \<in> true_voxels v" .
    from is_labeling_connected [OF l i j] r have "flat L ! j = flat L ! i" by simp
    moreover from j len have "j < length (flat L)" by (simp add: true_voxels_def)
    ultimately show "j \<in> cluster L (flat L ! i)" by (simp add: cluster_def)
  next
    fix j assume c: "j \<in> cluster L (flat L ! i)"
    with cluster_subset_true_voxels [OF ok nz] have j: "j \<in> true_voxels v" by blast
    from c have "flat L ! i = flat L ! j" by (simp add: cluster_def)
    with is_labeling_connected [OF l i j] show "j \<in> {j. (i, j) \<in> (neighbours conn v)\<^sup>*}"
      by simp
  qed
qed

lemma labels_of_true_voxels:
  assumes ok: "label_volume_ok v L" and ne: "flat L \<noteq> []"
  shows "(\<lambda>i. flat L ! i) ` true_voxels v = {1..max_label L}"
proof (intro set_eqI iffI)
  fix c assume "c \<in> (\<lambda>i. flat L ! i) ` true_voxels v"
  then obtain i where "i \<in> true_voxels v" "c = flat L ! i" by blast
  with true_voxel_label_pos [OF ok this(1)] show "c \<in> {1..max_label L}" by simp
next
  fix c assume "c \<in> {1..max_label L}"
  then have c: "1 \<le> c" "c \<le> max_label L" by simp_all
  from cluster_nonempty [OF ok ne c] obtain i where i: "i \<in> cluster L c" by blast
  from c(1) have "c \<noteq> 0" by simp
  from cluster_subset_true_voxels [OF ok this] i have "i \<in> true_voxels v" by blast
  moreover from i have "flat L ! i = c" by (simp add: cluster_def)
  ultimately show "c \<in> (\<lambda>i. flat L ! i) ` true_voxels v" by blast
qed

lemma cluster_inj:
  assumes ok: "label_volume_ok v L" and ne: "flat L \<noteq> []"
  shows "inj_on (cluster L) {1..max_label L}"
proof (rule inj_onI)
  fix c d assume c: "c \<in> {1..max_label L}" and e: "cluster L c = cluster L d"
  from c have "1 \<le> c" "c \<le> max_label L" by simp_all
  from cluster_nonempty [OF ok ne this] obtain i where i: "i \<in> cluster L c" by blast
  with e have "i \<in> cluster L d" by simp
  with i show "c = d" by (simp add: cluster_def)
qed

lemma components_eq_clusters:
  assumes l: "is_labeling conn v L" and ne: "flat L \<noteq> []"
  shows "components conn v = cluster L ` {1..max_label L}"
proof -
  note ok = is_labeling_ok [OF l]
  have "components conn v = (\<lambda>i. cluster L (flat L ! i)) ` true_voxels v"
    unfolding components_def by (rule image_cong) (simp_all add: component_is_cluster [OF l])
  also have "\<dots> = cluster L ` ((\<lambda>i. flat L ! i) ` true_voxels v)"
    by (simp add: image_image)
  finally show ?thesis by (simp only: labels_of_true_voxels [OF ok ne])
qed

lemma max_label_num_components:
  assumes l: "is_labeling conn v L" and ne: "flat v \<noteq> []"
  shows "max_label L = int (num_components conn v)"
proof -
  note ok = is_labeling_ok [OF l]
  have n: "flat L \<noteq> []" using label_volume_ok_length [OF ok] ne by auto
  have "num_components conn v = card (cluster L ` {1..max_label L})"
    by (simp only: num_components_def components_eq_clusters [OF l n])
  also have "\<dots> = card {1..max_label L}"
    by (rule card_image) (rule cluster_inj [OF ok n])
  finally have "int (num_components conn v) = int (card {1..max_label L})" by simp
  with card_labels [OF max_label_nonneg [OF ok n]] show ?thesis by simp
qed

section \<open>Masks on a row of voxels\<close>

lemma unravel_line: "unravel [n, 1, 1] i = [i, 0, 0]"
  by simp

lemma adjacent_line:
  assumes "conn \<in> {6, 18, 26}" "s = [n, 1, 1]"
  shows "adjacent conn s i j \<longleftrightarrow> i = Suc j \<or> j = Suc i"
proof -
  have "adjacent conn s i j \<longleftrightarrow> \<bar>int i - int j\<bar> = 1"
    using assms by (auto simp: adjacent_def unravel_line Let_def)
  also have "\<dots> \<longleftrightarrow> i = Suc j \<or> j = Suc i" by auto
  finally show ?thesis .
qed

lemma is_labelingI:
  assumes "conn \<in> {6, 18, 26}" "length (shape v) = 3" "well_formed v" "label_volume_ok v L"
    and edge: "\<And>i j. (i, j) \<in> neighbours conn v \<Longrightarrow> flat L ! i = flat L ! j"
    and path: "\<And>i j. i \<in> true_voxels v \<Longrightarrow> j \<in> true_voxels v \<Longrightarrow> flat L ! i = flat L ! j
                 \<Longrightarrow> (i, j) \<in> (neighbours conn v)\<^sup>*"
  shows "is_labeling conn v L"
proof -
  have "flat L ! i = flat L ! j" if "(i, j) \<in> (neighbours conn v)\<^sup>*" for i j
    using that by (induction rule: rtrancl_induct) (auto dest: edge)
  with path assms(1-4) show ?thesis
    unfolding is_labeling_def by blast
qed

subsection \<open>The example is labelled correctly\<close>

lemma less_7: "i < 7 \<longleftrightarrow> i = 0 \<or> i = 1 \<or> i = 2 \<or> i = 3 \<or> i = 4 \<or> i = 5 \<or> i = (6::nat)"
  by auto

lemma ex_gt_true_voxels: "true_voxels ex_gt = {0, 1, 3}"
proof (intro set_eqI iffI)
  fix i assume "i \<in> true_voxels ex_gt"
  then have "i < 7" and t: "flat ex_gt ! i" by (simp_all add: true_voxels_def ex_gt_def)
  then have "i = 0 \<or> i = 1 \<or> i = 2 \<or> i = 3 \<or> i = 4 \<or> i = 5 \<or> i = 6"
    by (simp only: less_7)
  then show "i \<in> {0, 1, 3}" using t by (elim disjE) (simp_all add: ex_gt_def)
next
  fix i :: nat assume "i \<in> {0, 1, 3}"
  then have "i = 0 \<or> i = 1 \<or> i = 3" by simp
  then show "i \<in> true_voxels ex_gt"
    by (elim disjE) (simp_all add: true_voxels_def ex_gt_def)
qed

lemma ex_gt_labels_nth:
  "flat ex_gt_labels ! 0 = 1" "flat ex_gt_labels ! Suc 0 = 1" "flat ex_gt_labels ! 3 = 2"
  by (simp_all add: ex_gt_labels_def)

lemma ex_gt_neighbours: "neighbours 26 ex_gt = {(0, 1), (1, 0)}"
proof -
  have s: "shape ex_gt = [7, 1, 1]" by (simp add: ex_gt_def)
  have c: "(26::int) \<in> {6, 18, 26}" by simp
  show ?thesis
    unfolding neighbours_def ex_gt_true_voxels by (auto simp: adjacent_line [OF c s])
qed

lemma ex_gt_is_labeling: "is_labeling 26 ex_gt ex_gt_labels"
proof (rule is_labelingI)
  show "(26::int) \<in> {6, 18, 26}" by simp
  show "length (shape ex_gt) = 3" by (simp add: ex_gt_def)
  show "well_formed ex_gt" by (rule ex_well_formed)
  show "label_volume_ok ex_gt ex_gt_labels" by (rule ex_label_volume_ok)
next
  fix i j assume "(i, j) \<in> neighbours 26 ex_gt"
  then show "flat ex_gt_labels ! i = flat ex_gt_labels ! j"
    by (auto simp: ex_gt_neighbours ex_gt_labels_nth)
next
  fix i j assume "i \<in> true_voxels ex_gt" "j \<in> true_voxels ex_gt"
    and "flat ex_gt_labels ! i = flat ex_gt_labels ! j"
  then show "(i, j) \<in> (neighbours 26 ex_gt)\<^sup>*"
    by (auto simp: ex_gt_true_voxels ex_gt_neighbours ex_gt_labels_nth)
qed

subsection \<open>The row of isolated voxels is labelled correctly\<close>

lemma alternating_shape:
  "shape (alternating n) = [n, 1, 1]" "shape (alternating_labels n) = [n, 1, 1]"
  by (simp_all add: alternating_def alternating_labels_def)

lemma alternating_length:
  "length (flat (alternating n)) = n" "length (flat (alternating_labels n)) = n"
  by (simp_all add: alternating_def alternating_labels_def)

lemma alternating_nth:
  assumes "i < n"
  shows "flat (alternating n) ! i = even i"
    and "flat (alternating_labels n) ! i = (if even i then int (i div 2) + 1 else 0)"
  using assms by (simp_all add: alternating_def alternating_labels_def)

lemma alternating_well_formed: "well_formed (alternating n)"
  by (simp add: well_formed_def alternating_def)

lemma alternating_true_voxels: "true_voxels (alternating n) = {i. i < n \<and> even i}"
  by (auto simp: true_voxels_def alternating_length alternating_nth)

lemma alternating_label_used:
  assumes m: "m \<in> set (flat (alternating_labels n))" and c: "1 \<le> c" "c \<le> m"
  shows "c \<in> set (flat (alternating_labels n))"
proof -
  from m obtain i where i: "i < n" and mi: "m = flat (alternating_labels n) ! i"
    by (auto simp: in_set_conv_nth alternating_length)
  from mi i c have e: "even i" and ci: "c \<le> int (i div 2) + 1"
    by (auto simp: alternating_nth split: if_splits)
  define k where "k = 2 * nat (c - 1)"
  from c(1) ci have "nat (c - 1) \<le> i div 2" by simp
  then have "k \<le> 2 * (i div 2)" by (simp add: k_def)
  also have "\<dots> \<le> i" by simp
  finally have kn: "k < n" using i by simp
  have "even k" by (simp add: k_def)
  with kn have "flat (alternating_labels n) ! k = int (k div 2) + 1"
    by (simp add: alternating_nth)
  also have "\<dots> = c" using c(1) by (simp add: k_def)
  finally have "flat (alternating_labels n) ! k = c" .
  with kn show ?thesis by (auto simp: in_set_conv_nth alternating_length)
qed

lemma alternating_label_volume_ok: "label_volume_ok (alternating n) (alternating_labels n)"
proof -
  have "list_all2 (\<lambda>l b. 0 \<le> l \<and> (l \<noteq> 0) = b)
          (flat (alternating_labels n)) (flat (alternating n))"
    by (simp add: list_all2_conv_all_nth alternating_length alternating_nth)
  moreover have "\<forall>m \<in> set (flat (alternating_labels n)). \<forall>c \<in> set [1..m].
                   c \<in> set (flat (alternating_labels n))"
    using alternating_label_used by auto
  ultimately show ?thesis
    unfolding label_volume_ok_def by (simp only: alternating_shape simp_thms)
qed

lemma alternating_neighbours:
  assumes "conn \<in> {6, 18, 26}"
  shows "neighbours conn (alternating n) = {}"
  unfolding neighbours_def alternating_true_voxels
  by (auto simp: adjacent_line [OF assms alternating_shape(1)])

lemma alternating_is_labeling:
  assumes "conn \<in> {6, 18, 26}"
  shows "is_labeling conn (alternating n) (alternating_labels n)"
proof (rule is_labelingI)
  show "conn \<in> {6, 18, 26}" by (rule assms)
  show "length (shape (alternating n)) = 3" by (simp add: alternating_shape)
  show "well_formed (alternating n)" by (rule alternating_well_formed)
  show "label_volume_ok (alternating n) (alternating_labels n)"
    by (rule alternating_label_volume_ok)
next
  fix i j assume "(i, j) \<in> neighbours conn (alternating n)"
  then show "flat (alternating_labels n) ! i = flat (alternating_labels n) ! j"
    by (simp add: alternating_neighbours [OF assms])
next
  fix i j assume i: "i \<in> true_voxels (alternating n)" and j: "j \<in> true_voxels (alternating n)"
    and e: "flat (alternating_labels n) ! i = flat (alternating_labels n) ! j"
  from i j have "i < n" "even i" "j < n" "even j" by (simp_all add: alternating_true_voxels)
  with e have "i div 2 = j div 2" by (simp add: alternating_nth)
  with \<open>even i\<close> \<open>even j\<close> have "i = j" by (metis dvd_div_mult_self)
  then show "(i, j) \<in> (neighbours conn (alternating n))\<^sup>*" by simp
qed

lemma alternating_max_label:
  assumes "0 < m"
  shows "max_label (alternating_labels (2 * m)) = int m"
  unfolding max_label_def
proof (rule Max_eqI)
  show "finite (set (flat (alternating_labels (2 * m))))" by simp
next
  fix y assume "y \<in> set (flat (alternating_labels (2 * m)))"
  then obtain i where i: "i < 2 * m" and y: "y = flat (alternating_labels (2 * m)) ! i"
    by (auto simp: in_set_conv_nth alternating_length)
  from i have "i div 2 < m" by simp
  with y i show "y \<le> int m" by (simp add: alternating_nth)
next
  from assms have k: "2 * (m - 1) < 2 * m" by simp
  have "flat (alternating_labels (2 * m)) ! (2 * (m - 1)) = int (m - 1) + 1"
    using alternating_nth(2) [OF k] by simp
  also have "\<dots> = int m" using assms by simp
  finally have "flat (alternating_labels (2 * m)) ! (2 * (m - 1)) = int m" .
  with k show "int m \<in> set (flat (alternating_labels (2 * m)))"
    by (metis alternating_length(2) nth_mem)
qed

subsection \<open>The example prediction is labelled correctly\<close>

lemma ex_pred_true_voxels: "true_voxels ex_pred = {0, 5}"
proof (intro set_eqI iffI)
  fix i assume "i \<in> true_voxels ex_pred"
  then have "i < 7" and t: "flat ex_pred ! i" by (simp_all add: true_voxels_def ex_pred_def)
  then have "i = 0 \<or> i = 1 \<or> i = 2 \<or> i = 3 \<or> i = 4 \<or> i = 5 \<or> i = 6"
    by (simp only: less_7)
  then show "i \<in> {0, 5}" using t by (elim disjE) (simp_all add: ex_pred_def)
next
  fix i :: nat assume "i \<in> {0, 5}"
  then have "i = 0 \<or> i = 5" by simp
  then show "i \<in> true_voxels ex_pred"
    by (elim disjE) (simp_all add: true_voxels_def ex_pred_def)
qed

lemma ex_pred_labels_nth: "flat ex_pred_labels ! 0 = 1" "flat ex_pred_labels ! 5 = 2"
  by (simp_all add: ex_pred_labels_def)

lemma ex_pred_neighbours: "neighbours 26 ex_pred = {}"
proof -
  have s: "shape ex_pred = [7, 1, 1]" by (simp add: ex_pred_def)
  have c: "(26::int) \<in> {6, 18, 26}" by simp
  show ?thesis
    unfolding neighbours_def ex_pred_true_voxels by (auto simp: adjacent_line [OF c s])
qed

lemma ex_pred_is_labeling: "is_labeling 26 ex_pred ex_pred_labels"
proof (rule is_labelingI)
  show "(26::int) \<in> {6, 18, 26}" by simp
  show "length (shape ex_pred) = 3" by (simp add: ex_pred_def)
  show "well_formed ex_pred" by (rule ex_well_formed)
  show "label_volume_ok ex_pred ex_pred_labels" by (rule ex_label_volume_ok)
next
  fix i j assume "(i, j) \<in> neighbours 26 ex_pred"
  then show "flat ex_pred_labels ! i = flat ex_pred_labels ! j"
    by (simp add: ex_pred_neighbours)
next
  fix i j assume "i \<in> true_voxels ex_pred" "j \<in> true_voxels ex_pred"
    and "flat ex_pred_labels ! i = flat ex_pred_labels ! j"
  then show "(i, j) \<in> (neighbours 26 ex_pred)\<^sup>*"
    by (auto simp: ex_pred_true_voxels ex_pred_labels_nth)
qed

section \<open>Counting clusters\<close>

lemma compute_number_of_clusters_eq:
  assumes "cc c v = Some L" "flat L \<noteq> []"
  shows "compute_number_of_clusters cc v c = Inr (astype_int16 (max_label L))"
  by (simp add: compute_number_of_clusters_def assms(1) np_max_eq [OF assms(2)])

lemma clusters_of_labeling:
  assumes cc: "cc c v = Some L" and l: "is_labeling c v L" and ne: "flat v \<noteq> []"
  shows "compute_number_of_clusters cc v c = Inr (astype_int16 (int (num_components c v)))"
proof -
  have n: "flat L \<noteq> []" using label_volume_ok_length [OF is_labeling_ok [OF l]] ne by auto
  show ?thesis
    by (simp only: compute_number_of_clusters_eq [of cc c v L, OF cc n]
        max_label_num_components [OF l ne])
qed

subsection \<open>A mask with 32768 lesions\<close>

lemma big_nonempty: "flat (alternating 65536) \<noteq> []" "true_voxels (alternating 65536) \<noteq> {}"
proof -
  have "length (flat (alternating 65536)) = 65536" by (rule alternating_length)
  then show "flat (alternating 65536) \<noteq> []" by auto
  have "0 \<in> true_voxels (alternating 65536)" by (simp add: alternating_true_voxels)
  then show "true_voxels (alternating 65536) \<noteq> {}" by blast
qed

lemma big_cc: "alternating_cc 65536 c (alternating 65536) = Some (alternating_labels 65536)"
  by (simp add: alternating_cc_def)

lemma big_max_label: "max_label (alternating_labels 65536) = 32768"
  using alternating_max_label [of 32768] by simp

lemma big_is_labeling: "is_labeling 26 (alternating 65536) (alternating_labels 65536)"
  by (rule alternating_is_labeling) simp

lemma big_num_components: "num_components 26 (alternating 65536) = 32768"
  using max_label_num_components [OF big_is_labeling big_nonempty(1)] big_max_label by simp

lemma big_counts:
  "lesion_wise_counts (alternating_cc 65536) (alternating 65536) (alternating 65536) 26
     = Inr (32768, 0, 0)"
  using counts_self [of "alternating_cc 65536" 26 "alternating 65536" "alternating_labels 65536",
      OF big_cc alternating_label_volume_ok big_nonempty(2)]
  by (simp add: big_max_label)

lemma big_clusters:
  "compute_number_of_clusters (alternating_cc 65536) (alternating 65536) 26 = Inr (- 32768)"
  using clusters_of_labeling [of "alternating_cc 65536" 26 "alternating 65536"
      "alternating_labels 65536", OF big_cc big_is_labeling big_nonempty(1)]
  by (simp add: big_num_components astype_int16_negative)

text \<open>
  Claim C9. \<open>compute_number_of_clusters\<close> returns the largest label of the labelling,
  cast to a signed 16-bit integer. The largest label is the number of connected
  components. Up to 32767 components the result is that number; above, it is not: the
  result is the number wrapped modulo \<open>2^16\<close> into \<open>-32768..32767\<close>, negative from
  32768 to 65535 components. (The array has at least one voxel: without any,
  \<open>max()\<close> raises.)
\<close>

theorem number_of_clusters_is_int16:
  assumes "cc connectivity v = Some L" and "is_labeling connectivity v L" and "flat v \<noteq> []"
  shows "compute_number_of_clusters cc v connectivity = Inr (astype_int16 (max_label L)) \<and>
     max_label L = int (num_components connectivity v) \<and>
     (num_components connectivity v \<le> 32767 \<longrightarrow>
        compute_number_of_clusters cc v connectivity = Inr (int (num_components connectivity v))) \<and>
     (32767 < num_components connectivity v \<longrightarrow>
        (\<exists>r. compute_number_of_clusters cc v connectivity = Inr r \<and>
             r \<noteq> int (num_components connectivity v) \<and>
             r = (int (num_components connectivity v) + 32768) mod 65536 - 32768)) \<and>
     (32768 \<le> num_components connectivity v \<and> num_components connectivity v \<le> 65535 \<longrightarrow>
        compute_number_of_clusters cc v connectivity
          = Inr (int (num_components connectivity v) - 65536))"
proof -
  let ?n = "int (num_components connectivity v)"
  have m: "max_label L = ?n" by (rule max_label_num_components [OF assms(2,3)])
  have c: "compute_number_of_clusters cc v connectivity = Inr (astype_int16 ?n)"
    by (rule clusters_of_labeling [of cc connectivity v L, OF assms])
  have "astype_int16 ?n = ?n" if "num_components connectivity v \<le> 32767"
    using that by (simp add: astype_int16_id)
  moreover have "astype_int16 ?n \<noteq> ?n" if "32767 < num_components connectivity v"
    using that by (simp add: astype_int16_wraps)
  moreover have "astype_int16 ?n = ?n - 65536"
    if "32768 \<le> num_components connectivity v \<and> num_components connectivity v \<le> 65535"
    using that by (simp add: astype_int16_negative)
  ultimately show ?thesis
    using astype_int16_eq [of ?n] by (simp only: c m) blast
qed

theorem number_of_clusters_is_int16_witness:
  "ex_cc 26 ex_gt = Some ex_gt_labels \<and> is_labeling 26 ex_gt ex_gt_labels \<and> flat ex_gt \<noteq> [] \<and>
   num_components 26 ex_gt = 2 \<and>
   compute_number_of_clusters ex_cc ex_gt 26 = Inr 2 \<and>
   alternating_cc 65536 26 (alternating 65536) = Some (alternating_labels 65536) \<and>
   is_labeling 26 (alternating 65536) (alternating_labels 65536) \<and>
   flat (alternating 65536) \<noteq> [] \<and>
   num_components 26 (alternating 65536) = 32768 \<and>
   compute_number_of_clusters (alternating_cc 65536) (alternating 65536) 26 = Inr (- 32768)"
proof -
  have n: "flat ex_gt \<noteq> []" by (simp add: ex_gt_def)
  note g = number_of_clusters_is_int16 [of ex_cc 26 ex_gt ex_gt_labels,
      OF ex_cc_simps(1) ex_gt_is_labeling n]
  from g have "max_label ex_gt_labels = int (num_components 26 ex_gt)" by blast
  then have a1: "num_components 26 ex_gt = 2" by (simp add: ex_max_label)
  from g have "num_components 26 ex_gt \<le> 32767 \<longrightarrow>
      compute_number_of_clusters ex_cc ex_gt 26 = Inr (int (num_components 26 ex_gt))"
    by blast
  with a1 have a2: "compute_number_of_clusters ex_cc ex_gt 26 = Inr 2" by simp
  note h = number_of_clusters_is_int16 [of "alternating_cc 65536" 26 "alternating 65536"
      "alternating_labels 65536", OF big_cc big_is_labeling big_nonempty(1)]
  from h have "max_label (alternating_labels 65536) = int (num_components 26 (alternating 65536))"
    by blast
  then have b1: "num_components 26 (alternating 65536) = 32768" by (simp add: big_max_label)
  from h have "32768 \<le> num_components 26 (alternating 65536) \<and>
      num_components 26 (alternating 65536) \<le> 65535 \<longrightarrow>
      compute_number_of_clusters (alternating_cc 65536) (alternating 65536) 26
        = Inr (int (num_components 26 (alternating 65536)) - 65536)"
    by blast
  with b1 have b2:
    "compute_number_of_clusters (alternating_cc 65536) (alternating 65536) 26 = Inr (- 32768)"
    by simp
  from a1 a2 b1 b2 show ?thesis
    by (simp add: ex_cc_simps ex_gt_is_labeling n big_cc big_is_labeling big_nonempty)
qed

lemma matched_or_fp:
  assumes l: "is_labeling conn pred Lp" and ne: "flat pred \<noteq> []"
  shows "int (card {c \<in> {1..max_label Lp}. cluster Lp c \<inter> g \<noteq> {}}) +
         int (card {c \<in> {1..max_label Lp}. cluster Lp c \<inter> g = {}})
         = int (num_components conn pred)"
proof -
  have "0 \<le> max_label Lp" using max_label_num_components [OF l ne] by simp
  then have "max 0 (max_label Lp) = max_label Lp" by simp
  with counts_exhaustive [of "max_label Lp" "\<lambda>c. cluster Lp c \<inter> g \<noteq> {}"]
    max_label_num_components [OF l ne]
  show ?thesis by simp
qed

text \<open>
  The counting is exhaustive. On masks of equal shape \<open>tp + fn\<close> is the number of
  connected components of the ground truth, and every prediction cluster is either
  counted in \<open>fp\<close> or overlaps the ground truth, so these two counts add up to the
  number of connected components of the prediction. \<open>compute_number_of_clusters\<close>
  returns the same number as \<open>tp + fn\<close> as long as its 16-bit cast does not wrap.
\<close>

lemma counts_are_exhaustive:
  assumes "well_formed gt" and "well_formed pred" and "shape gt = shape pred"
    and "cc connectivity gt = Some Lg" and "is_labeling connectivity gt Lg"
    and "cc connectivity pred = Some Lp" and "is_labeling connectivity pred Lp"
  shows "(\<forall>tp fp fn.
       lesion_wise_counts cc gt pred connectivity = Inr (tp, fp, fn) \<longrightarrow>
         tp + fn = int (num_components connectivity gt) \<and>
         fp = int (card {c \<in> {1..max_label Lp}. cluster Lp c \<inter> true_voxels gt = {}}) \<and>
         int (card {c \<in> {1..max_label Lp}. cluster Lp c \<inter> true_voxels gt \<noteq> {}}) + fp
           = int (num_components connectivity pred) \<and>
         (num_components connectivity gt \<le> 32767 \<longrightarrow>
            compute_number_of_clusters cc gt connectivity = Inr (tp + fn))) \<and>
     (flat gt \<noteq> [] \<longrightarrow>
        (\<exists>tp fp fn. lesion_wise_counts cc gt pred connectivity = Inr (tp, fp, fn)))"
proof -
  note okg = is_labeling_ok [OF assms(5)] and okp = is_labeling_ok [OF assms(7)]
  have a: "tp + fn = int (num_components connectivity gt) \<and>
         fp = int (card {c \<in> {1..max_label Lp}. cluster Lp c \<inter> true_voxels gt = {}}) \<and>
         int (card {c \<in> {1..max_label Lp}. cluster Lp c \<inter> true_voxels gt \<noteq> {}}) + fp
           = int (num_components connectivity pred) \<and>
         (num_components connectivity gt \<le> 32767 \<longrightarrow>
            compute_number_of_clusters cc gt connectivity = Inr (tp + fn))"
    if r: "lesion_wise_counts cc gt pred connectivity = Inr (tp, fp, fn)" for tp fp fn
  proof -
    have ne: "flat gt \<noteq> []"
      by (rule counts_Inr_nonempty [of cc gt pred connectivity tp fp fn Lg, OF r assms(4) okg])
    have np: "flat pred \<noteq> []" by (rule same_size [OF assms(3,1,2) ne])
    have lg: "flat Lg \<noteq> []" using label_volume_ok_length [OF okg] ne by auto
    have lp: "flat Lp \<noteq> []" using label_volume_ok_length [OF okp] np by auto
    define I where "I = true_voxels gt \<inter> true_voxels pred"
    from r lesion_wise_counts_eq [of gt pred cc connectivity Lg Lp, OF assms(3,4)
          label_volume_ok_shape [OF okg] lg assms(6) label_volume_ok_shape [OF okp] lp]
    have tp: "tp = int (card {c \<in> {1..max_label Lg}. cluster Lg c \<inter> I \<noteq> {}})"
      and fp: "fp = int (card {c \<in> {1..max_label Lp}. cluster Lp c \<inter> true_voxels gt = {}})"
      and fn: "fn = int (card {c \<in> {1..max_label Lg}. cluster Lg c \<inter> I = {}})"
      by (simp_all add: I_def)
    have e: "tp + fn = int (num_components connectivity gt)"
      unfolding tp fn by (rule matched_or_fp [OF assms(5) ne])
    have p: "int (card {c \<in> {1..max_label Lp}. cluster Lp c \<inter> true_voxels gt \<noteq> {}}) + fp
             = int (num_components connectivity pred)"
      unfolding fp by (rule matched_or_fp [OF assms(7) np])
    have c: "compute_number_of_clusters cc gt connectivity = Inr (tp + fn)"
      if "num_components connectivity gt \<le> 32767"
      using that clusters_of_labeling [of cc connectivity gt Lg, OF assms(4,5) ne]
      by (simp add: e astype_int16_id)
    from e fp p c show ?thesis by blast
  qed
  have b: "\<exists>tp fp fn. lesion_wise_counts cc gt pred connectivity = Inr (tp, fp, fn)"
    if "flat gt \<noteq> []"
    by (rule counts_defined [of gt pred cc connectivity Lg Lp, OF assms(1-3) that assms(4) okg
          assms(6) okp])
  from a b show ?thesis by blast
qed

lemma counts_are_exhaustive_example:
  "is_labeling 26 ex_gt ex_gt_labels \<and> is_labeling 26 ex_pred ex_pred_labels \<and>
   lesion_wise_counts ex_cc ex_gt ex_pred 26 = Inr (1, 1, 1) \<and>
   num_components 26 ex_gt = 2 \<and>
   int (card {c \<in> {1..max_label ex_pred_labels}.
          cluster ex_pred_labels c \<inter> true_voxels ex_gt \<noteq> {}}) + 1 =
     int (num_components 26 ex_pred) \<and>
   compute_number_of_clusters ex_cc ex_gt 26 = Inr 2"
proof -
  have s: "shape ex_gt = shape ex_pred" by (simp add: ex_defs)
  note g = counts_are_exhaustive [of ex_gt ex_pred ex_cc 26 ex_gt_labels
      ex_pred_labels,
      OF ex_well_formed(1,2) s ex_cc_simps(1) ex_gt_is_labeling ex_cc_simps(2)
         ex_pred_is_labeling]
  from g [THEN conjunct1, rule_format, OF ex_counts]
  show ?thesis
    by (auto simp: ex_counts ex_gt_is_labeling ex_pred_is_labeling)
qed

text \<open>
  Claim C4. The claim equates \<open>tp + fn\<close> with what \<open>compute_number_of_clusters\<close> returns
  for the ground truth under the same connectivity. The code breaks it: on a row of
  65536 voxels with every other voxel true, compared with itself, there are 32768
  lesions and the loop counts \<open>tp + fn = 32768\<close>, while \<open>compute_number_of_clusters\<close>
  returns \<open>-32768\<close>, which is no number of clusters.
\<close>

theorem tp_fn_is_not_the_cluster_count:
  "well_formed (alternating 65536) \<and>
   alternating_cc 65536 26 (alternating 65536) = Some (alternating_labels 65536) \<and>
   is_labeling 26 (alternating 65536) (alternating_labels 65536) \<and>
   num_components 26 (alternating 65536) = 32768 \<and>
   lesion_wise_counts (alternating_cc 65536) (alternating 65536) (alternating 65536) 26
     = Inr (32768, 0, 0) \<and>
   compute_number_of_clusters (alternating_cc 65536) (alternating 65536) 26 = Inr (- 32768)"
  by (simp add: alternating_well_formed big_cc big_is_labeling big_num_components big_counts
      big_clusters)

theorem tp_fn_is_not_the_cluster_count_witness:
  "lesion_wise_counts (alternating_cc 65536) (alternating 65536) (alternating 65536) 26
     = Inr (32768, 0, 0) \<and>
   compute_number_of_clusters (alternating_cc 65536) (alternating 65536) 26 = Inr (- 32768) \<and>
   (32768 :: int) + 0 \<noteq> - 32768"
  using tp_fn_is_not_the_cluster_count by simp

end
